theory Spec2Isabelle
  imports Complex_Main "HOL-Library.Word"
begin

section \<open>Common vocabulary\<close>

text \<open>
  \<open>size_t\<close> is an unsigned 64-bit integer: \<open>+\<close>, \<open>-\<close> and \<open>*\<close> wrap around.
  \<open>ptrdiff_t\<close> class counts are kept in the tagged form the sources use them in.
\<close>

type_synonym size_t = "64 word"

text \<open>
  A run of the native code either returns or stops: at an \<open>EBM_ASSERT\<close> (debug builds
  only; the flag \<open>dbg\<close> of the functions below says whether assertions are compiled
  in), at a \<open>static_assert\<close> of a template that must not be instantiated, or at a read
  or write outside an array, which the C++ leaves undefined.
\<close>

datatype fault = AssertionFailed | StaticAssertFailed | OutOfBounds

section \<open>TreeSweep.hpp\<close>

text \<open>
  Modelled from the spec: \<open>IsAddError\<close> is declared in \<open>ebm_internal.hpp\<close>, which is not
  among the sources. The spec says that sizes are computed "with overflow checked": the
  error is that the sum of the two operands does not fit the size type.
\<close>

definition IsAddError :: "size_t \<Rightarrow> size_t \<Rightarrow> bool" where
  "IsAddError num1 num2 = (2 ^ 64 \<le> unat num1 + unat num2)"

text \<open>
  \<open>GetBinSize<FloatBig>\<close> and \<open>IsOverflowBinSize<FloatBig>\<close> (the header of the bin record)
  and the two \<open>sizeof\<close> values of each \<open>TreeSweep<bClassification>\<close> are parameters:
  \<open>sizeofTreeSweep b\<close> is \<open>sizeof(TreeSweep<b>)\<close> and \<open>sizeofBestBinLeft b\<close> is
  \<open>sizeof(TreeSweep<b>::m_bestBinLeft)\<close>.
\<close>

definition IsOverflowTreeSweepSize ::
  "bool \<Rightarrow> (bool \<Rightarrow> size_t \<Rightarrow> bool) \<Rightarrow> (bool \<Rightarrow> size_t \<Rightarrow> size_t) \<Rightarrow> (bool \<Rightarrow> size_t) \<Rightarrow>
   (bool \<Rightarrow> size_t) \<Rightarrow> bool \<Rightarrow> size_t \<Rightarrow> fault + bool" where
  "IsOverflowTreeSweepSize dbg IsOverflowBinSize GetBinSize sizeofTreeSweep sizeofBestBinLeft
     bClassification cScores =
     (if dbg \<and> IsOverflowBinSize bClassification cScores then Inl AssertionFailed
      else
        let cBytesPerBin = GetBinSize bClassification cScores;
            cBytesTreeSweepComponent =
              (if bClassification then sizeofTreeSweep True - sizeofBestBinLeft True
               else sizeofTreeSweep False - sizeofBestBinLeft False)
        in if IsAddError cBytesTreeSweepComponent cBytesPerBin then Inr True else Inr False)"

definition GetTreeSweepSize ::
  "(bool \<Rightarrow> size_t \<Rightarrow> size_t) \<Rightarrow> (bool \<Rightarrow> size_t) \<Rightarrow> (bool \<Rightarrow> size_t) \<Rightarrow> bool \<Rightarrow> size_t \<Rightarrow> size_t" where
  "GetTreeSweepSize GetBinSize sizeofTreeSweep sizeofBestBinLeft bClassification cScores =
     (let cBytesPerBin = GetBinSize bClassification cScores;
          cBytesTreeSweepComponent =
            (if bClassification then sizeofTreeSweep True - sizeofBestBinLeft True
             else sizeofTreeSweep False - sizeofBestBinLeft False)
      in cBytesTreeSweepComponent + cBytesPerBin)"

section \<open>libebm\_test.cpp: IsApproxEqual\<close>

text \<open>
  A \<open>double\<close> is a NaN, an infinity or a finite value. The two zeros are one value
  here: the function below only compares, adds and multiplies, and none of these tells
  them apart. Every arithmetic result goes through \<open>rnd\<close>, the rounding of the exact
  result to a \<open>double\<close> (which may be an infinity on overflow); nothing is assumed of it.
\<close>

datatype double = NaN | NegInf | Finite real | PosInf

fun isnan :: "double \<Rightarrow> bool" where
  "isnan NaN = True"
| "isnan _ = False"

fun isinf :: "double \<Rightarrow> bool" where
  "isinf NegInf = True"
| "isinf PosInf = True"
| "isinf _ = False"

fun fp_le :: "double \<Rightarrow> double \<Rightarrow> bool" where
  "fp_le NaN _ = False"
| "fp_le _ NaN = False"
| "fp_le NegInf _ = True"
| "fp_le _ PosInf = True"
| "fp_le (Finite x) (Finite y) = (x \<le> y)"
| "fp_le _ _ = False"

fun fp_lt :: "double \<Rightarrow> double \<Rightarrow> bool" where
  "fp_lt NaN _ = False"
| "fp_lt _ NaN = False"
| "fp_lt (Finite x) (Finite y) = (x < y)"
| "fp_lt NegInf NegInf = False"
| "fp_lt NegInf _ = True"
| "fp_lt PosInf _ = False"
| "fp_lt (Finite x) PosInf = True"
| "fp_lt (Finite x) NegInf = False"

fun fp_eq :: "double \<Rightarrow> double \<Rightarrow> bool" where
  "fp_eq NaN _ = False"
| "fp_eq _ NaN = False"
| "fp_eq a b = (a = b)"

fun fp_neg :: "double \<Rightarrow> double" where
  "fp_neg NaN = NaN"
| "fp_neg NegInf = PosInf"
| "fp_neg PosInf = NegInf"
| "fp_neg (Finite x) = Finite (- x)"

fun fp_add :: "(real \<Rightarrow> double) \<Rightarrow> double \<Rightarrow> double \<Rightarrow> double" where
  "fp_add rnd NaN _ = NaN"
| "fp_add rnd _ NaN = NaN"
| "fp_add rnd (Finite x) (Finite y) = rnd (x + y)"
| "fp_add rnd PosInf NegInf = NaN"
| "fp_add rnd NegInf PosInf = NaN"
| "fp_add rnd PosInf _ = PosInf"
| "fp_add rnd NegInf _ = NegInf"
| "fp_add rnd (Finite x) b = b"

definition fp_sub :: "(real \<Rightarrow> double) \<Rightarrow> double \<Rightarrow> double \<Rightarrow> double" where
  "fp_sub rnd a b = fp_add rnd a (fp_neg b)"

fun fp_mul :: "(real \<Rightarrow> double) \<Rightarrow> double \<Rightarrow> double \<Rightarrow> double" where
  "fp_mul rnd NaN _ = NaN"
| "fp_mul rnd _ NaN = NaN"
| "fp_mul rnd (Finite x) (Finite y) = rnd (x * y)"
| "fp_mul rnd (Finite x) PosInf = (if x = 0 then NaN else if 0 < x then PosInf else NegInf)"
| "fp_mul rnd (Finite x) NegInf = (if x = 0 then NaN else if 0 < x then NegInf else PosInf)"
| "fp_mul rnd PosInf (Finite y) = (if y = 0 then NaN else if 0 < y then PosInf else NegInf)"
| "fp_mul rnd NegInf (Finite y) = (if y = 0 then NaN else if 0 < y then NegInf else PosInf)"
| "fp_mul rnd PosInf PosInf = PosInf"
| "fp_mul rnd PosInf NegInf = NegInf"
| "fp_mul rnd NegInf PosInf = NegInf"
| "fp_mul rnd NegInf NegInf = PosInf"

text \<open>
  \<open>IsApproxEqual\<close> returns \<open>isEqual\<close> and counts a failure in the global
  \<open>g_countEqualityFailures\<close>, which is passed in and returned.
\<close>

definition IsApproxEqual ::
  "(real \<Rightarrow> double) \<Rightarrow> double \<Rightarrow> double \<Rightarrow> double \<Rightarrow> int \<Rightarrow> bool \<times> int" where
  "IsApproxEqual rnd val expected percentage g_countEqualityFailures =
     (let isEqual =
        (if \<not> isnan val then
           if \<not> isnan expected then
             if \<not> isinf val then
               if \<not> isinf expected then
                 let smaller = fp_sub rnd (Finite 1) percentage;
                     bigger = fp_add rnd (Finite 1) percentage
                 in if fp_lt (Finite 0) val then
                      if fp_lt (Finite 0) expected then
                        if fp_le val expected then
                          (if fp_le (fp_mul rnd expected smaller) val \<and>
                              fp_le val (fp_mul rnd expected bigger) then True else False)
                        else
                          (if fp_le (fp_mul rnd val smaller) expected \<and>
                              fp_le expected (fp_mul rnd val bigger) then True else False)
                      else False
                    else if fp_lt val (Finite 0) then
                      if fp_lt expected (Finite 0) then
                        if fp_le expected val then
                          (if fp_le (fp_mul rnd expected bigger) val \<and>
                              fp_le val (fp_mul rnd expected smaller) then True else False)
                        else
                          (if fp_le (fp_mul rnd val bigger) expected \<and>
                              fp_le expected (fp_mul rnd val smaller) then True else False)
                      else False
                    else
                      (if fp_eq (Finite 0) expected then True else False)
               else False
             else False
           else False
         else False)
      in (isEqual,
          if \<not> isEqual then g_countEqualityFailures + 1 else g_countEqualityFailures))"

section \<open>BinInteraction.cpp: the data of the kernel\<close>

text \<open>
  Modelled from the spec: the class counts of \<open>ebm_internal.hpp\<close> (not among the
  sources) are \<open>ptrdiff_t\<close> values that the spec lists as "regression,
  \<open>k_dynamicClassification\<close>, or integer 2..\<open>K_MAX\<close>". They are kept as a tagged value;
  the two markers are not class counts and compare below every count. A template
  parameter and a runtime class count have this one type, as in the sources.
\<close>

datatype classes = k_regression | k_dynamicClassification | Classes nat

fun IsClassification :: "classes \<Rightarrow> bool" where
  "IsClassification k_regression = False"
| "IsClassification _ = True"

fun IsRegression :: "classes \<Rightarrow> bool" where
  "IsRegression k_regression = True"
| "IsRegression _ = False"

text \<open>\<open>cRuntimeClasses <= k_cCompilerClassesMax\<close>, for a class count and a bound.\<close>

fun classes_le :: "classes \<Rightarrow> nat \<Rightarrow> bool" where
  "classes_le (Classes K) n = (K \<le> n)"
| "classes_le _ n = True"

text \<open>
  Modelled from the spec: "\<open>cScores = 1\<close> for regression and binary classification
  (single logit convention), \<open>cScores = K\<close> for \<open>K\<close>-way multiclass".
\<close>

fun GetCountScores :: "classes \<Rightarrow> nat" where
  "GetCountScores (Classes K) = (if K \<le> 2 then 1 else K)"
| "GetCountScores _ = 1"

text \<open>
  Modelled from the spec: "the \<open>C = dynamic\<close> and \<open>D = dynamic\<close> variants read bounds
  from arguments; the specialized variants must let the compiler see them as constants".
  \<open>GET_COUNT_CLASSES\<close> and \<open>GET_DIMENSIONS\<close> are the macros that choose between the
  template parameter and the runtime value.
\<close>

definition GET_COUNT_CLASSES :: "classes \<Rightarrow> classes \<Rightarrow> classes" where
  "GET_COUNT_CLASSES cCompilerClasses cRuntimeClasses =
     (if cCompilerClasses = k_dynamicClassification then cRuntimeClasses else cCompilerClasses)"

datatype dimensions = k_dynamicDimensions | Dimensions nat

fun GET_DIMENSIONS :: "dimensions \<Rightarrow> nat \<Rightarrow> nat" where
  "GET_DIMENSIONS k_dynamicDimensions cRuntimeDimensions = cRuntimeDimensions"
| "GET_DIMENSIONS (Dimensions cCompilerDimensions) cRuntimeDimensions = cCompilerDimensions"

text \<open>
  The records the kernel reads and writes, with the members its accessors return. The
  float types \<open>'f\<close> (\<open>FloatFast\<close>) and \<open>'b\<close> (\<open>FloatBig\<close>) are any types with the
  operations the kernel uses: no law of arithmetic is assumed of them.
  A gradient pair of a regression has no Hessian member in the sources; here the member
  is there and a regression never reads or writes it.
  The bin tensor is the list of its bin records (the sources index it by bytes,
  \<open>cBytesPerBin\<close> apart). The bin indices of a feature are \<open>size_t\<close> values (the
  conversion from the storage type is asserted not to lose anything).
  \<open>m_weightTotal\<close> is what \<open>GetWeightTotal()\<close> returns.
\<close>

record 'f GradientPair =
  m_sumGradients :: 'f
  m_sumHessians :: 'f

record 'f Bin =
  m_cSamples :: size_t
  m_weight :: 'f
  m_aGradientPairs :: "'f GradientPair list"

record Feature =
  m_cBins :: size_t
  m_iFeatureData :: nat

record Term =
  m_cDimensions :: nat
  m_cSignificantDimensions :: nat
  m_aTermEntries :: "Feature list"

record ('f, 'b) DataSetInteraction =
  m_aGradientsAndHessians :: "'f list"
  m_aWeights :: "'f list option"
  m_cSamplesDataSet :: nat
  m_aaInputData :: "size_t list list"
  m_weightTotal :: 'b

record ('f, 'b) InteractionCore =
  m_cClasses :: classes
  m_dataFrame :: "('f, 'b) DataSetInteraction"

record ('f, 'b) InteractionShell =
  m_pInteractionCore :: "('f, 'b) InteractionCore"
  m_aBinsFast :: "'f Bin list"

text \<open>
  What the assertions of a debug build use and the sources do not declare: the tests
  \<open>std::isnan\<close> and \<open>std::isinf\<close> of the standard library, the constants
  \<open>k_epsilonGradient\<close> and \<open>FloatFast { 0.25 }\<close>, the conversions to \<open>FloatBig\<close> of
  \<open>x * 0.999\<close>, of \<open>1.001 * x\<close> and of a \<open>size_t\<close>, and
  \<open>IsOverflowBinSize<FloatFast>\<close>. They are parameters of the kernel. The comparisons
  \<open><=\<close>, \<open><\<close> and \<open>==\<close> are those of the float types.
\<close>

record ('f, 'b) Floats =
  std_isnan :: "'f \<Rightarrow> bool"
  std_isinf :: "'f \<Rightarrow> bool"
  k_epsilonGradient :: 'f
  FloatFast_quarter :: 'f
  FloatBig_0_999 :: "'f \<Rightarrow> 'b"
  FloatBig_1_001 :: "'f \<Rightarrow> 'b"
  FloatBig_size_t :: "nat \<Rightarrow> 'b"
  IsOverflowBinSize_FloatFast :: "bool \<Rightarrow> nat \<Rightarrow> bool"

section \<open>BinInteraction.cpp: BinSumsInteractionInternal\<close>

text \<open>
  The \<open>do ... while(iDimension < cDimensions)\<close> loop of one sample: the flat index of
  its bin. A read outside the term entries, the feature columns or a column stops the
  run, as do the two assertions of a debug build.
\<close>

function BinSumsInteractionInternal_dimensions ::
  "bool \<Rightarrow> Term \<Rightarrow> ('f, 'b) DataSetInteraction \<Rightarrow> nat \<Rightarrow> nat \<Rightarrow> size_t \<Rightarrow> size_t \<Rightarrow> nat \<Rightarrow> fault + size_t" where
  "BinSumsInteractionInternal_dimensions dbg pTerm pDataSet cDimensions iSample cTensorBins iTensorBin iDimension =
     (if length (m_aTermEntries pTerm) \<le> iDimension then Inl OutOfBounds
      else
        let pInputFeature = m_aTermEntries pTerm ! iDimension;
            cBins = m_cBins pInputFeature
        in if dbg \<and> \<not> 2 \<le> cBins then Inl AssertionFailed
           else if length (m_aaInputData pDataSet) \<le> m_iFeatureData pInputFeature then Inl OutOfBounds
           else
             let pInputData = m_aaInputData pDataSet ! m_iFeatureData pInputFeature
             in if length pInputData \<le> iSample then Inl OutOfBounds
                else
                  let iBin = pInputData ! iSample
                  in if dbg \<and> \<not> iBin < cBins then Inl AssertionFailed
                     else
                       let iTensorBin' = iTensorBin + cTensorBins * iBin;
                           cTensorBins' = cTensorBins * cBins;
                           iDimension' = iDimension + 1
                       in if iDimension' < cDimensions
                          then BinSumsInteractionInternal_dimensions dbg pTerm pDataSet cDimensions
                                 iSample cTensorBins' iTensorBin' iDimension'
                          else Inr iTensorBin')"
  by pat_completeness auto
termination
  by (relation "measure (\<lambda>(dbg, pTerm, pDataSet, cDimensions, iSample, cTensorBins, iTensorBin, iDimension).
        cDimensions - iDimension)") auto

declare BinSumsInteractionInternal_dimensions.simps [simp del]

text \<open>
  The \<open>for(iScore = 0; iScore < cScores; ++iScore)\<close> loop of one sample: it adds the
  weighted gradient (and, in a classification, the weighted Hessian) of each score to
  the gradient pairs of the bin, and moves \<open>pGradientAndHessian\<close> (an offset into the
  gradient buffer) on. It returns the pairs and the offset. In a classification a
  debug build asserts the ranges of the gradient, of the Hessian, and of the Hessian
  sum before and after the addition.
\<close>

function BinSumsInteractionInternal_scores ::
  "('f :: {one, plus, times, uminus, minus, ord}, 'b) Floats \<Rightarrow> bool \<Rightarrow> bool \<Rightarrow> 'f list \<Rightarrow> 'f \<Rightarrow>
   nat \<Rightarrow> nat \<Rightarrow> nat \<Rightarrow> 'f GradientPair list \<Rightarrow> fault + ('f GradientPair list \<times> nat)" where
  "BinSumsInteractionInternal_scores env dbg bClassification aGradientsAndHessians weight cScores iScore
     pGradientAndHessian pGradientPair =
     (if iScore < cScores then
        if length aGradientsAndHessians \<le> pGradientAndHessian then Inl OutOfBounds
        else
          let gradient = aGradientsAndHessians ! pGradientAndHessian
          in if length pGradientPair \<le> iScore then Inl OutOfBounds
             else
               let pair = pGradientPair ! iScore;
                   pair' = pair\<lparr>m_sumGradients := m_sumGradients pair + gradient * weight\<rparr>
               in if bClassification then
                    if dbg \<and> \<not> (std_isnan env gradient \<or>
                                  \<not> std_isinf env gradient \<and>
                                  - 1 - k_epsilonGradient env \<le> gradient \<and> gradient \<le> 1)
                    then Inl AssertionFailed
                    else if length aGradientsAndHessians \<le> pGradientAndHessian + 1 then Inl OutOfBounds
                    else
                      let hessian = aGradientsAndHessians ! (pGradientAndHessian + 1)
                      in if dbg \<and> \<not> (std_isnan env hessian \<or>
                                        \<not> std_isinf env hessian \<and> - k_epsilonGradient env \<le> hessian \<and>
                                        hessian \<le> FloatFast_quarter env)
                         then Inl AssertionFailed
                         else
                           let oldHessian = m_sumHessians pair'
                           in if dbg \<and> \<not> (std_isnan env oldHessian \<or>
                                             \<not> std_isinf env oldHessian \<and>
                                             - k_epsilonGradient env \<le> oldHessian)
                              then Inl AssertionFailed
                              else
                                let newHessian = oldHessian + hessian * weight
                                in if dbg \<and> \<not> (std_isnan env newHessian \<or>
                                                  \<not> std_isinf env newHessian \<and>
                                                  - k_epsilonGradient env \<le> newHessian)
                                   then Inl AssertionFailed
                                   else
                                     BinSumsInteractionInternal_scores env dbg bClassification
                                       aGradientsAndHessians weight cScores (iScore + 1)
                                       (pGradientAndHessian + 2)
                                       (pGradientPair[iScore := pair'\<lparr>m_sumHessians := newHessian\<rparr>])
                  else
                    BinSumsInteractionInternal_scores env dbg bClassification aGradientsAndHessians weight
                      cScores (iScore + 1) (pGradientAndHessian + 1) (pGradientPair[iScore := pair'])
      else Inr (pGradientPair, pGradientAndHessian))"
  by pat_completeness auto
termination
  by (relation "measure (\<lambda>(env, dbg, bClassification, aGradientsAndHessians, weight, cScores, iScore,
        pGradientAndHessian, pGradientPair). cScores - iScore)") auto

declare BinSumsInteractionInternal_scores.simps [simp del]

text \<open>
  The body of the loop over the samples, for sample \<open>iSample\<close>: the bin is found, its
  count and weight grow, and its gradient pairs are summed into. \<open>pWeight\<close> is the
  offset into the weight array, used when there is one. The bin must lie in the tensor
  (\<open>ASSERT_BIN_OK\<close> in a debug build; a write outside it is undefined in any build).
  \<open>weightTotalDebug\<close> is a variable of a debug build only: a release build leaves the
  value it is given.
\<close>

definition BinSumsInteractionInternal_sample ::
  "('f :: {one, plus, times, uminus, minus, ord}, 'b) Floats \<Rightarrow> bool \<Rightarrow> bool \<Rightarrow> nat \<Rightarrow> nat \<Rightarrow> Term \<Rightarrow>
   ('f, 'b) DataSetInteraction \<Rightarrow> nat \<Rightarrow> nat \<Rightarrow> nat \<Rightarrow> 'f \<Rightarrow> 'f Bin list \<Rightarrow>
   fault + ('f Bin list \<times> nat \<times> nat \<times> 'f)" where
  "BinSumsInteractionInternal_sample env dbg bClassification cScores cDimensions pTerm pDataSet iSample
     pGradientAndHessian pWeight weightTotalDebug aBins =
     (case BinSumsInteractionInternal_dimensions dbg pTerm pDataSet cDimensions iSample 1 0 0 of
        Inl e \<Rightarrow> Inl e
      | Inr iTensorBin \<Rightarrow>
          if length aBins \<le> unat iTensorBin then Inl OutOfBounds
          else
            let pBin = aBins ! unat iTensorBin;
                pBin1 = pBin\<lparr>m_cSamples := m_cSamples pBin + 1\<rparr>
            in case (case m_aWeights pDataSet of
                       None \<Rightarrow> Inr (1, pWeight, weightTotalDebug)
                     | Some aWeights \<Rightarrow>
                         if length aWeights \<le> pWeight then Inl OutOfBounds
                         else
                           let weight = aWeights ! pWeight
                           in Inr (weight, pWeight + 1,
                                   if dbg then weightTotalDebug + weight else weightTotalDebug)) of
                 Inl e \<Rightarrow> Inl e
               | Inr (weight, pWeight', weightTotalDebug') \<Rightarrow>
                   let pBin2 = pBin1\<lparr>m_weight := m_weight pBin1 + weight\<rparr>
                   in case BinSumsInteractionInternal_scores env dbg bClassification
                             (m_aGradientsAndHessians pDataSet) weight cScores 0 pGradientAndHessian
                             (m_aGradientPairs pBin2) of
                        Inl e \<Rightarrow> Inl e
                      | Inr (pGradientPair', pGradientAndHessian') \<Rightarrow>
                          Inr (aBins[unat iTensorBin := pBin2\<lparr>m_aGradientPairs := pGradientPair'\<rparr>],
                               pGradientAndHessian', pWeight', weightTotalDebug'))"

lemma BinSumsInteractionInternal_scores_offset:
  "BinSumsInteractionInternal_scores env dbg bClassification aGradientsAndHessians weight cScores iScore p pairs
     = Inr (pairs', p') \<Longrightarrow>
   p' = p + (if bClassification then 2 else 1) * (cScores - iScore) \<and>
   (iScore < cScores \<longrightarrow> p' \<le> length aGradientsAndHessians) \<and>
   length pairs' = length pairs"
proof (induction env dbg bClassification aGradientsAndHessians weight cScores iScore p pairs
    rule: BinSumsInteractionInternal_scores.induct)
  case (1 env dbg bClassification aGradientsAndHessians weight cScores iScore p pairs)
  note prem = "1.prems" [unfolded BinSumsInteractionInternal_scores.simps
      [of env dbg bClassification aGradientsAndHessians weight cScores iScore p pairs]]
  let ?g = "aGradientsAndHessians ! p"
  let ?h = "aGradientsAndHessians ! (p + 1)"
  let ?pair' = "(pairs ! iScore)\<lparr>m_sumGradients := m_sumGradients (pairs ! iScore) + ?g * weight\<rparr>"
  let ?old = "m_sumHessians ?pair'"
  let ?new = "?old + ?h * weight"
  show ?case
  proof (cases "iScore < cScores")
    case False
    with prem show ?thesis by simp
  next
    case lt: True
    have a: "\<not> length aGradientsAndHessians \<le> p"
      using prem lt by (auto split: if_splits)
    have b: "\<not> length pairs \<le> iScore"
      using prem lt a by (auto simp: Let_def split: if_splits)
    show ?thesis
    proof (cases bClassification)
      case True
      have ag: "\<not> (dbg \<and> \<not> (std_isnan env ?g \<or> \<not> std_isinf env ?g \<and>
                    - 1 - k_epsilonGradient env \<le> ?g \<and> ?g \<le> 1))"
        using prem lt a b True by (auto simp: Let_def split: if_splits)
      have c: "\<not> length aGradientsAndHessians \<le> p + 1"
        using prem lt a b True ag by (auto simp: Let_def split: if_splits)
      have ah: "\<not> (dbg \<and> \<not> (std_isnan env ?h \<or> \<not> std_isinf env ?h \<and>
                    - k_epsilonGradient env \<le> ?h \<and> ?h \<le> FloatFast_quarter env))"
        using prem lt a b True ag c by (auto simp: Let_def split: if_splits)
      have ao: "\<not> (dbg \<and> \<not> (std_isnan env ?old \<or> \<not> std_isinf env ?old \<and>
                    - k_epsilonGradient env \<le> ?old))"
        using prem lt a b True ag c ah by (auto simp: Let_def split: if_splits)
      have an: "\<not> (dbg \<and> \<not> (std_isnan env ?new \<or> \<not> std_isinf env ?new \<and>
                    - k_epsilonGradient env \<le> ?new))"
        using prem lt a b True ag c ah ao by (auto simp: Let_def split: if_splits)
      have rec: "BinSumsInteractionInternal_scores env dbg bClassification aGradientsAndHessians weight
                   cScores (iScore + 1) (p + 2) (pairs[iScore := ?pair'\<lparr>m_sumHessians := ?new\<rparr>])
                  = Inr (pairs', p')"
        using prem lt a b True ag c ah ao an by (auto simp: Let_def split: if_splits)
      from "1.IH"(1) [OF lt a refl b refl refl True ag c refl ah refl ao refl an] rec lt True c
      show ?thesis
        by (cases "iScore + 1 < cScores") (auto simp: Let_def)
    next
      case False
      have rec: "BinSumsInteractionInternal_scores env dbg bClassification aGradientsAndHessians weight
                   cScores (iScore + 1) (p + 1) (pairs[iScore := ?pair']) = Inr (pairs', p')"
        using prem lt a b False by (simp add: Let_def)
      from "1.IH"(2) [OF lt a refl b refl refl False] rec lt False a
      show ?thesis
        by (cases "iScore + 1 < cScores") (auto simp: Let_def)
    qed
  qed
qed

lemma GetCountScores_pos: "0 < GetCountScores cClasses"
  by (cases cClasses) auto

lemma BinSumsInteractionInternal_sample_offset:
  assumes "BinSumsInteractionInternal_sample env dbg bClassification cScores cDimensions pTerm pDataSet
             iSample p pWeight weightTotalDebug aBins = Inr (aBins', p', pWeight', weightTotalDebug')"
    and "0 < cScores"
  shows "p < p' \<and> p' \<le> length (m_aGradientsAndHessians pDataSet)"
proof -
  from assms(1) obtain w pairs pairs' where
    "BinSumsInteractionInternal_scores env dbg bClassification (m_aGradientsAndHessians pDataSet) w cScores 0 p pairs
       = Inr (pairs', p')"
    by (auto simp: BinSumsInteractionInternal_sample_def Let_def
        split: sum.splits if_splits option.splits prod.splits)
  from BinSumsInteractionInternal_scores_offset [OF this] assms(2) show ?thesis
    by (auto split: if_splits)
qed

text \<open>
  The loop over the samples, \<open>for(iSample = 0; pGradientsAndHessiansEnd !=
  pGradientAndHessian; ++iSample)\<close>. The score count is \<open>GetCountScores cClasses\<close>, as
  computed before the loop. It returns the tensor and \<open>weightTotalDebug\<close>.
\<close>

function BinSumsInteractionInternal_samples ::
  "('f :: {one, plus, times, uminus, minus, ord}, 'b) Floats \<Rightarrow> bool \<Rightarrow> bool \<Rightarrow> classes \<Rightarrow> nat \<Rightarrow> Term \<Rightarrow>
   ('f, 'b) DataSetInteraction \<Rightarrow> nat \<Rightarrow> nat \<Rightarrow> nat \<Rightarrow> nat \<Rightarrow> 'f \<Rightarrow> 'f Bin list \<Rightarrow>
   fault + ('f Bin list \<times> 'f)" where
  "BinSumsInteractionInternal_samples env dbg bClassification cClasses cDimensions pTerm pDataSet
     pGradientsAndHessiansEnd iSample pGradientAndHessian pWeight weightTotalDebug aBins =
     (if pGradientsAndHessiansEnd \<noteq> pGradientAndHessian then
        case BinSumsInteractionInternal_sample env dbg bClassification (GetCountScores cClasses) cDimensions
               pTerm pDataSet iSample pGradientAndHessian pWeight weightTotalDebug aBins of
          Inl e \<Rightarrow> Inl e
        | Inr (aBins', pGradientAndHessian', pWeight', weightTotalDebug') \<Rightarrow>
            BinSumsInteractionInternal_samples env dbg bClassification cClasses cDimensions pTerm pDataSet
              pGradientsAndHessiansEnd (iSample + 1) pGradientAndHessian' pWeight' weightTotalDebug' aBins'
      else Inr (aBins, weightTotalDebug))"
  by pat_completeness auto
termination
proof (relation "measure (\<lambda>(env, dbg, bClassification, cClasses, cDimensions, pTerm, pDataSet,
        pGradientsAndHessiansEnd, iSample, pGradientAndHessian, pWeight, weightTotalDebug, aBins).
        length (m_aGradientsAndHessians pDataSet) - pGradientAndHessian)", goal_cases)
  case 1
  show ?case by simp
next
  case 2
  then show ?case
    by (auto dest!: BinSumsInteractionInternal_sample_offset [OF _ GetCountScores_pos])
qed

declare BinSumsInteractionInternal_samples.simps [simp del]

text \<open>
  \<open>BinSumsInteractionInternal<cCompilerClasses, cCompilerDimensions>::Func\<close>. After the
  loop a debug build asserts that the weight total of the dataset is positive, that it
  is within a thousandth of \<open>weightTotalDebug\<close> when there are weights, and that it is
  the count of samples when there are none. \<open>pWeight\<close> is \<open>nullptr\<close> when the dataset has
  no weight array.
\<close>

definition BinSumsInteractionInternal ::
  "('f :: {zero, one, plus, times, uminus, minus, ord}, 'b :: {zero, ord}) Floats \<Rightarrow> bool \<Rightarrow> classes \<Rightarrow>
   dimensions \<Rightarrow> ('f, 'b) InteractionShell \<Rightarrow> Term \<Rightarrow> fault + ('f, 'b) InteractionShell" where
  "BinSumsInteractionInternal env dbg cCompilerClasses cCompilerDimensions pInteractionShell pTerm =
     (let bClassification = IsClassification cCompilerClasses;
          aBins = m_aBinsFast pInteractionShell;
          pInteractionCore = m_pInteractionCore pInteractionShell;
          cRuntimeClasses = m_cClasses pInteractionCore;
          cClasses = GET_COUNT_CLASSES cCompilerClasses cRuntimeClasses;
          cScores = GetCountScores cClasses
      in if dbg \<and> IsOverflowBinSize_FloatFast env bClassification cScores then Inl AssertionFailed
         else
           let pDataSet = m_dataFrame pInteractionCore;
               pGradientAndHessian = 0;
               pGradientsAndHessiansEnd =
                 pGradientAndHessian + (if bClassification then 2 else 1) * cScores * m_cSamplesDataSet pDataSet;
               pWeight = 0
           in if dbg \<and> m_cDimensions pTerm \<noteq> m_cSignificantDimensions pTerm then Inl AssertionFailed
              else
                let cDimensions = GET_DIMENSIONS cCompilerDimensions (m_cSignificantDimensions pTerm)
                in if dbg \<and> \<not> 1 \<le> cDimensions then Inl AssertionFailed
                   else
                     let weightTotalDebug = 0
                     in case BinSumsInteractionInternal_samples env dbg bClassification cClasses cDimensions
                               pTerm pDataSet pGradientsAndHessiansEnd 0 pGradientAndHessian pWeight
                               weightTotalDebug aBins of
                          Inl e \<Rightarrow> Inl e
                        | Inr (aBins', weightTotalDebug') \<Rightarrow>
                            if dbg \<and> \<not> 0 < m_weightTotal pDataSet then Inl AssertionFailed
                            else if dbg \<and> \<not> (m_aWeights pDataSet = None \<or>
                                               FloatBig_0_999 env weightTotalDebug' \<le> m_weightTotal pDataSet \<and>
                                               m_weightTotal pDataSet \<le> FloatBig_1_001 env weightTotalDebug')
                            then Inl AssertionFailed
                            else if dbg \<and> \<not> (m_aWeights pDataSet \<noteq> None \<or>
                                               FloatBig_size_t env (m_cSamplesDataSet pDataSet) =
                                                 m_weightTotal pDataSet)
                            then Inl AssertionFailed
                            else Inr (pInteractionShell\<lparr>m_aBinsFast := aBins'\<rparr>))"

section \<open>BinInteraction.cpp: the dispatcher\<close>

text \<open>
  The constants of \<open>ebm_internal.hpp\<close> that bound the template ladders are parameters.
\<close>

record Constants =
  k_cCompilerClassesMax :: nat
  k_cCompilerOptimizedCountDimensionsMax :: nat
  k_cDimensionsMax :: nat

text \<open>
  The three ladders end in a call of \<open>BinSumsInteractionInternal<C, D>::Func\<close>. They are
  written over the function they call, \<open>Internal C D\<close>, so that the instantiation they
  reach can be told from their result. A primary template outside the range of its
  \<open>static_assert\<close>s cannot be instantiated.

  \<open>BinSumsInteractionDimensions<cCompilerClasses, cCompilerDimensionsPossible>::Func\<close>,
  with its partial specialisation for \<open>k_cCompilerOptimizedCountDimensionsMax + 1\<close>:
\<close>

function BinSumsInteractionDimensions ::
  "Constants \<Rightarrow> bool \<Rightarrow> (classes \<Rightarrow> dimensions \<Rightarrow> ('f, 'b) InteractionShell \<Rightarrow> Term \<Rightarrow> fault + 'r) \<Rightarrow>
   classes \<Rightarrow> nat \<Rightarrow> ('f, 'b) InteractionShell \<Rightarrow> Term \<Rightarrow> fault + 'r" where
  "BinSumsInteractionDimensions k dbg Internal cCompilerClasses cCompilerDimensionsPossible
     pInteractionShell pTerm =
     (if cCompilerDimensionsPossible = k_cCompilerOptimizedCountDimensionsMax k + 1 then
        if dbg \<and> \<not> 1 \<le> m_cSignificantDimensions pTerm then Inl AssertionFailed
        else if dbg \<and> \<not> m_cSignificantDimensions pTerm \<le> k_cDimensionsMax k then Inl AssertionFailed
        else Internal cCompilerClasses k_dynamicDimensions pInteractionShell pTerm
      else if \<not> 1 \<le> cCompilerDimensionsPossible then Inl StaticAssertFailed
      else if \<not> cCompilerDimensionsPossible \<le> k_cDimensionsMax k then Inl StaticAssertFailed
      else
        let cRuntimeDimensions = m_cSignificantDimensions pTerm
        in if dbg \<and> \<not> 1 \<le> cRuntimeDimensions then Inl AssertionFailed
           else if dbg \<and> \<not> cRuntimeDimensions \<le> k_cDimensionsMax k then Inl AssertionFailed
           else if cCompilerDimensionsPossible = cRuntimeDimensions then
             Internal cCompilerClasses (Dimensions cCompilerDimensionsPossible) pInteractionShell pTerm
           else
             BinSumsInteractionDimensions k dbg Internal cCompilerClasses
               (cCompilerDimensionsPossible + 1) pInteractionShell pTerm)"
  by pat_completeness auto
termination
  by (relation "measure (\<lambda>(k, dbg, Internal, cCompilerClasses, cCompilerDimensionsPossible,
        pInteractionShell, pTerm). k_cDimensionsMax k + 1 - cCompilerDimensionsPossible)") auto

declare BinSumsInteractionDimensions.simps [simp del]

text \<open>
  \<open>BinSumsInteractionTarget<cPossibleClasses>::Func\<close>, with its specialisation for
  \<open>k_cCompilerClassesMax + 1\<close>:
\<close>

function BinSumsInteractionTarget ::
  "Constants \<Rightarrow> bool \<Rightarrow> (classes \<Rightarrow> dimensions \<Rightarrow> ('f, 'b) InteractionShell \<Rightarrow> Term \<Rightarrow> fault + 'r) \<Rightarrow>
   nat \<Rightarrow> ('f, 'b) InteractionShell \<Rightarrow> Term \<Rightarrow> fault + 'r" where
  "BinSumsInteractionTarget k dbg Internal cPossibleClasses pInteractionShell pTerm =
     (if cPossibleClasses = k_cCompilerClassesMax k + 1 then
        if dbg \<and> \<not> IsClassification (m_cClasses (m_pInteractionCore pInteractionShell))
        then Inl AssertionFailed
        else if dbg \<and> classes_le (m_cClasses (m_pInteractionCore pInteractionShell)) (k_cCompilerClassesMax k)
        then Inl AssertionFailed
        else BinSumsInteractionDimensions k dbg Internal k_dynamicClassification 2 pInteractionShell pTerm
      else if \<not> IsClassification (Classes cPossibleClasses) then Inl StaticAssertFailed
      else if \<not> cPossibleClasses \<le> k_cCompilerClassesMax k then Inl StaticAssertFailed
      else
        let pInteractionCore = m_pInteractionCore pInteractionShell;
            cRuntimeClasses = m_cClasses pInteractionCore
        in if dbg \<and> \<not> IsClassification cRuntimeClasses then Inl AssertionFailed
           else if dbg \<and> \<not> classes_le cRuntimeClasses (k_cCompilerClassesMax k) then Inl AssertionFailed
           else if Classes cPossibleClasses = cRuntimeClasses then
             BinSumsInteractionDimensions k dbg Internal (Classes cPossibleClasses) 2 pInteractionShell pTerm
           else
             BinSumsInteractionTarget k dbg Internal (cPossibleClasses + 1) pInteractionShell pTerm)"
  by pat_completeness auto
termination
  by (relation "measure (\<lambda>(k, dbg, Internal, cPossibleClasses, pInteractionShell, pTerm).
        k_cCompilerClassesMax k + 1 - cPossibleClasses)") auto

declare BinSumsInteractionTarget.simps [simp del]

text \<open>\<open>BinSumsInteraction\<close>, over the kernel it ends in, and with the kernel itself.\<close>

definition BinSumsInteraction_over ::
  "Constants \<Rightarrow> bool \<Rightarrow> (classes \<Rightarrow> dimensions \<Rightarrow> ('f, 'b) InteractionShell \<Rightarrow> Term \<Rightarrow> fault + 'r) \<Rightarrow>
   ('f, 'b) InteractionShell \<Rightarrow> Term \<Rightarrow> fault + 'r" where
  "BinSumsInteraction_over k dbg Internal pInteractionShell pTerm =
     (let pInteractionCore = m_pInteractionCore pInteractionShell;
          cRuntimeClasses = m_cClasses pInteractionCore
      in if IsClassification cRuntimeClasses then
           BinSumsInteractionTarget k dbg Internal 2 pInteractionShell pTerm
         else if dbg \<and> \<not> IsRegression cRuntimeClasses then Inl AssertionFailed
         else BinSumsInteractionDimensions k dbg Internal k_regression 2 pInteractionShell pTerm)"

definition BinSumsInteraction ::
  "Constants \<Rightarrow> ('f :: {zero, one, plus, times, uminus, minus, ord}, 'b :: {zero, ord}) Floats \<Rightarrow> bool \<Rightarrow>
   ('f, 'b) InteractionShell \<Rightarrow> Term \<Rightarrow> fault + ('f, 'b) InteractionShell" where
  "BinSumsInteraction k env dbg pInteractionShell pTerm =
     BinSumsInteraction_over k dbg (BinSumsInteractionInternal env dbg) pInteractionShell pTerm"

text \<open>
  The instantiation the spec's dispatch rules name, for a runtime class count and a
  count of significant dimensions: the class count itself when it is on the ladder
  \<open>2, ..., k_cCompilerClassesMax\<close>, the dynamic classification otherwise, and the
  regression for a regression; the dimension count itself when it is on the ladder
  \<open>2, ..., k_cCompilerOptimizedCountDimensionsMax\<close>, the dynamic dimensions otherwise.
\<close>

fun dispatched_classes :: "Constants \<Rightarrow> classes \<Rightarrow> classes" where
  "dispatched_classes k k_regression = k_regression"
| "dispatched_classes k k_dynamicClassification = k_dynamicClassification"
| "dispatched_classes k (Classes K) =
     (if 2 \<le> K \<and> K \<le> k_cCompilerClassesMax k then Classes K else k_dynamicClassification)"

definition dispatched_dimensions :: "Constants \<Rightarrow> nat \<Rightarrow> dimensions" where
  "dispatched_dimensions k D =
     (if 2 \<le> D \<and> D \<le> k_cCompilerOptimizedCountDimensionsMax k then Dimensions D
      else k_dynamicDimensions)"

text \<open>What the assertions of a debug build ask of a call of the dispatcher.\<close>

definition dispatch_asserts :: "Constants \<Rightarrow> classes \<Rightarrow> nat \<Rightarrow> bool" where
  "dispatch_asserts k cRuntimeClasses cRuntimeDimensions =
     (1 \<le> cRuntimeDimensions \<and> cRuntimeDimensions \<le> k_cDimensionsMax k \<and>
      (case cRuntimeClasses of
         k_regression \<Rightarrow> True
       | k_dynamicClassification \<Rightarrow> False
       | Classes K \<Rightarrow> 2 \<le> K \<and> K \<le> k_cCompilerClassesMax k))"

section \<open>The aggregation as the spec words it\<close>

text \<open>
  The flat index of the spec, for the bins \<open>(b0, ..., b_{D-1})\<close> of a sample and the
  bin counts of the features: \<open>i = b0 + cBins[0] * (b1 + cBins[1] * (b2 + ...))\<close>.
\<close>

fun tensor_index :: "nat list \<Rightarrow> nat list \<Rightarrow> nat" where
  "tensor_index (b # bs) (c # cs) = b + c * tensor_index bs cs"
| "tensor_index _ _ = 0"

text \<open>The bins of sample \<open>s\<close> in the features of a term, and the index they give.\<close>

definition sample_bins :: "Term \<Rightarrow> ('f, 'b) DataSetInteraction \<Rightarrow> nat \<Rightarrow> nat list" where
  "sample_bins pTerm pDataSet s =
     map (\<lambda>f. unat (m_aaInputData pDataSet ! m_iFeatureData f ! s)) (m_aTermEntries pTerm)"

definition term_bins :: "Term \<Rightarrow> nat list" where
  "term_bins pTerm = map (\<lambda>f. unat (m_cBins f)) (m_aTermEntries pTerm)"

definition sample_index :: "Term \<Rightarrow> ('f, 'b) DataSetInteraction \<Rightarrow> nat \<Rightarrow> nat" where
  "sample_index pTerm pDataSet s = tensor_index (sample_bins pTerm pDataSet s) (term_bins pTerm)"

text \<open>
  The weight of sample \<open>s\<close> (exactly 1 without a weight array), and its gradient and
  Hessian for score \<open>k\<close>: the buffer holds \<open>cScores\<close> gradients per sample, and in a
  classification each is followed by its Hessian.
\<close>

definition sample_weight :: "('f :: one, 'b) DataSetInteraction \<Rightarrow> nat \<Rightarrow> 'f" where
  "sample_weight pDataSet s = (case m_aWeights pDataSet of None \<Rightarrow> 1 | Some aWeights \<Rightarrow> aWeights ! s)"

definition sample_gradient :: "bool \<Rightarrow> nat \<Rightarrow> ('f, 'b) DataSetInteraction \<Rightarrow> nat \<Rightarrow> nat \<Rightarrow> 'f" where
  "sample_gradient bClassification cScores pDataSet s k =
     m_aGradientsAndHessians pDataSet ! ((if bClassification then 2 else 1) * (cScores * s + k))"

definition sample_hessian :: "nat \<Rightarrow> ('f, 'b) DataSetInteraction \<Rightarrow> nat \<Rightarrow> nat \<Rightarrow> 'f" where
  "sample_hessian cScores pDataSet s k =
     m_aGradientsAndHessians pDataSet ! (2 * (cScores * s + k) + 1)"

text \<open>
  What a sample does to its bin: \<open>count += 1\<close>, \<open>weight += w\<close>, and for each score
  \<open>k\<close>, \<open>sumGradients[k] += g[s,k] * w\<close> and, in a classification,
  \<open>sumHessians[k] += h[s,k] * w\<close>.
\<close>

definition bin_add_sample ::
  "bool \<Rightarrow> nat \<Rightarrow> ('f :: {one, plus, times}, 'b) DataSetInteraction \<Rightarrow> nat \<Rightarrow> 'f Bin \<Rightarrow> 'f Bin" where
  "bin_add_sample bClassification cScores pDataSet s bin =
     (let w = sample_weight pDataSet s
      in \<lparr>m_cSamples = m_cSamples bin + 1,
          m_weight = m_weight bin + w,
          m_aGradientPairs =
            map (\<lambda>k. \<lparr>m_sumGradients =
                         m_sumGradients (m_aGradientPairs bin ! k) +
                           sample_gradient bClassification cScores pDataSet s k * w,
                       m_sumHessians =
                         (if bClassification
                          then m_sumHessians (m_aGradientPairs bin ! k) +
                                 sample_hessian cScores pDataSet s k * w
                          else m_sumHessians (m_aGradientPairs bin ! k))\<rparr>)
              [0..<cScores]\<rparr>)"

text \<open>One sample changes exactly the bin at its index; the samples are taken in order.\<close>

definition binSums_sample ::
  "bool \<Rightarrow> nat \<Rightarrow> Term \<Rightarrow> ('f :: {one, plus, times}, 'b) DataSetInteraction \<Rightarrow> 'f Bin list \<Rightarrow> nat \<Rightarrow> 'f Bin list" where
  "binSums_sample bClassification cScores pTerm pDataSet aBins s =
     aBins[sample_index pTerm pDataSet s :=
             bin_add_sample bClassification cScores pDataSet s (aBins ! sample_index pTerm pDataSet s)]"

definition binSums ::
  "bool \<Rightarrow> nat \<Rightarrow> Term \<Rightarrow> ('f :: {one, plus, times}, 'b) DataSetInteraction \<Rightarrow> 'f Bin list \<Rightarrow> 'f Bin list" where
  "binSums bClassification cScores pTerm pDataSet aBins =
     foldl (binSums_sample bClassification cScores pTerm pDataSet) aBins
       [0..<m_cSamplesDataSet pDataSet]"

text \<open>
  The preconditions of the kernel, for a classification flag and a score count: the
  term has at least one dimension and all of them are significant; every feature has at
  least two bins and a column with a bin index below its bin count for every sample;
  the tensor has the shape of the term, fits the address space, and each of its bins
  has \<open>cScores\<close> gradient pairs; the gradient buffer and the weight array (when there
  is one) have an entry for every sample.
\<close>

definition feature_ok :: "('f, 'b) DataSetInteraction \<Rightarrow> Feature \<Rightarrow> bool" where
  "feature_ok pDataSet f =
     (2 \<le> m_cBins f \<and> m_iFeatureData f < length (m_aaInputData pDataSet) \<and>
      length (m_aaInputData pDataSet ! m_iFeatureData f) = m_cSamplesDataSet pDataSet \<and>
      list_all (\<lambda>iBin. iBin < m_cBins f) (m_aaInputData pDataSet ! m_iFeatureData f))"

definition binSums_pre :: "bool \<Rightarrow> nat \<Rightarrow> ('f, 'b) InteractionShell \<Rightarrow> Term \<Rightarrow> bool" where
  "binSums_pre bClassification cScores pInteractionShell pTerm =
     (let pDataSet = m_dataFrame (m_pInteractionCore pInteractionShell);
          aBins = m_aBinsFast pInteractionShell
      in m_aTermEntries pTerm \<noteq> [] \<and>
         m_cDimensions pTerm = length (m_aTermEntries pTerm) \<and>
         m_cSignificantDimensions pTerm = length (m_aTermEntries pTerm) \<and>
         list_all (feature_ok pDataSet) (m_aTermEntries pTerm) \<and>
         length aBins = prod_list (term_bins pTerm) \<and>
         length aBins < 2 ^ 64 \<and>
         list_all (\<lambda>bin. length (m_aGradientPairs bin) = cScores) aBins \<and>
         length (m_aGradientsAndHessians pDataSet) =
           (if bClassification then 2 else 1) * cScores * m_cSamplesDataSet pDataSet \<and>
         (case m_aWeights pDataSet of
            None \<Rightarrow> True
          | Some aWeights \<Rightarrow> length aWeights = m_cSamplesDataSet pDataSet))"

text \<open>
  What the assertions of a debug build ask: of a gradient and a Hessian of a
  classification, and of a Hessian sum before and after an addition (a \<open>NaN\<close> passes
  all of them); of a sample, for the tensor it finds; and of a run of the kernel: the
  bin size does not overflow, every sample of a classification passes on the tensor
  the samples before it leave, the weight total of the dataset is positive, and it is
  the count of the samples without a weight array and within a thousandth of the
  float sum of the weights (taken in their order) with one.
\<close>

definition gradient_assert :: "('f :: {one, uminus, minus, ord}, 'b) Floats \<Rightarrow> 'f \<Rightarrow> bool" where
  "gradient_assert env gradient =
     (std_isnan env gradient \<or>
      \<not> std_isinf env gradient \<and> - 1 - k_epsilonGradient env \<le> gradient \<and> gradient \<le> 1)"

definition hessian_assert :: "('f :: {uminus, ord}, 'b) Floats \<Rightarrow> 'f \<Rightarrow> bool" where
  "hessian_assert env hessian =
     (std_isnan env hessian \<or>
      \<not> std_isinf env hessian \<and> - k_epsilonGradient env \<le> hessian \<and> hessian \<le> FloatFast_quarter env)"

definition hessian_sum_assert :: "('f :: {uminus, ord}, 'b) Floats \<Rightarrow> 'f \<Rightarrow> bool" where
  "hessian_sum_assert env sumHessians =
     (std_isnan env sumHessians \<or>
      \<not> std_isinf env sumHessians \<and> - k_epsilonGradient env \<le> sumHessians)"

definition sample_asserts ::
  "('f :: {one, plus, times, uminus, minus, ord}, 'b) Floats \<Rightarrow> nat \<Rightarrow> Term \<Rightarrow> ('f, 'b) DataSetInteraction \<Rightarrow>
   'f Bin list \<Rightarrow> nat \<Rightarrow> bool" where
  "sample_asserts env cScores pTerm pDataSet aBins s =
     list_all (\<lambda>k. gradient_assert env (sample_gradient True cScores pDataSet s k) \<and>
                   hessian_assert env (sample_hessian cScores pDataSet s k) \<and>
                   hessian_sum_assert env
                     (m_sumHessians (m_aGradientPairs (aBins ! sample_index pTerm pDataSet s) ! k)) \<and>
                   hessian_sum_assert env
                     (m_sumHessians (m_aGradientPairs (aBins ! sample_index pTerm pDataSet s) ! k) +
                        sample_hessian cScores pDataSet s k * sample_weight pDataSet s))
       [0..<cScores]"

definition debug_asserts ::
  "('f :: {zero, one, plus, times, uminus, minus, ord}, 'b :: {zero, ord}) Floats \<Rightarrow> bool \<Rightarrow> nat \<Rightarrow> Term \<Rightarrow>
   ('f, 'b) DataSetInteraction \<Rightarrow> 'f Bin list \<Rightarrow> bool" where
  "debug_asserts env bClassification cScores pTerm pDataSet aBins =
     (\<not> IsOverflowBinSize_FloatFast env bClassification cScores \<and>
      (bClassification \<longrightarrow>
         list_all (\<lambda>s. sample_asserts env cScores pTerm pDataSet
                         (foldl (binSums_sample True cScores pTerm pDataSet) aBins [0..<s]) s)
           [0..<m_cSamplesDataSet pDataSet]) \<and>
      0 < m_weightTotal pDataSet \<and>
      (case m_aWeights pDataSet of
         None \<Rightarrow> FloatBig_size_t env (m_cSamplesDataSet pDataSet) = m_weightTotal pDataSet
       | Some aWeights \<Rightarrow>
           FloatBig_0_999 env (foldl (+) 0 aWeights) \<le> m_weightTotal pDataSet \<and>
           m_weightTotal pDataSet \<le> FloatBig_1_001 env (foldl (+) 0 aWeights)))"

text \<open>A tensor that was reset before the aggregation.\<close>

definition zeroed :: "('f :: zero) Bin list \<Rightarrow> bool" where
  "zeroed aBins =
     list_all (\<lambda>bin. m_cSamples bin = 0 \<and> m_weight bin = 0 \<and>
                 list_all (\<lambda>pair. m_sumGradients pair = 0 \<and> m_sumHessians pair = 0)
                   (m_aGradientPairs bin)) aBins"

text \<open>
  The float type counts exactly up to \<open>N\<close>: \<open>emb\<close> is the conversion of a count to a
  float, and adding the floats of two counts gives the float of their sum as long as
  the sum is at most \<open>N\<close> (for IEEE doubles, \<open>N = 2^53\<close>).
\<close>

definition exact_counts :: "(nat \<Rightarrow> 'f :: {zero, one, plus}) \<Rightarrow> nat \<Rightarrow> bool" where
  "exact_counts emb N =
     (emb 0 = 0 \<and> emb 1 = 1 \<and>
      (\<forall>a \<in> {..N}. \<forall>b \<in> {..N}. a + b \<le> N \<longrightarrow> emb a + emb b = emb (a + b)))"

text \<open>
  The ranges the spec gives for a classification: every per-sample Hessian lies in
  \<open>[0, 0.25]\<close>; and the weights of the samples are not negative and not infinite
  (without a weight array every weight is 1).
\<close>

definition hessians_in_range :: "('f :: {zero, ord}, 'b) Floats \<Rightarrow> nat \<Rightarrow> ('f, 'b) DataSetInteraction \<Rightarrow> bool" where
  "hessians_in_range env cScores pDataSet =
     list_all (\<lambda>s. list_all (\<lambda>k. 0 \<le> sample_hessian cScores pDataSet s k \<and>
                                   sample_hessian cScores pDataSet s k \<le> FloatFast_quarter env) [0..<cScores])
       [0..<m_cSamplesDataSet pDataSet]"

definition weights_nonnegative :: "('f :: {zero, one, ord}, 'b) Floats \<Rightarrow> ('f, 'b) DataSetInteraction \<Rightarrow> bool" where
  "weights_nonnegative env pDataSet =
     list_all (\<lambda>s. 0 \<le> sample_weight pDataSet s \<and> \<not> std_isinf env (sample_weight pDataSet s))
       [0..<m_cSamplesDataSet pDataSet]"

text \<open>
  The bound of the spec on the Hessian sums of the bins, \<open>0 \<le> sumHessians \<le> 0.25 *
  count + slack\<close>, over the real numbers.
\<close>

definition hessian_bound_by_count :: "real \<Rightarrow> real Bin list \<Rightarrow> bool" where
  "hessian_bound_by_count slack aBins =
     list_all (\<lambda>bin. list_all (\<lambda>pair. 0 \<le> m_sumHessians pair \<and>
                           m_sumHessians pair \<le> 1 / 4 * real (unat (m_cSamples bin)) + slack)
                 (m_aGradientPairs bin)) aBins"

text \<open>
  The bound that holds in floating-point arithmetic. \<open>quarter_sum\<close> is the Hessian sum
  of bin \<open>i\<close> were every Hessian \<open>0.25\<close>: the float sum of \<open>0.25 * w\<close> over the samples of
  the bin, in their order. Every Hessian sum of a bin lies between 0 and the
  \<open>quarter_sum\<close> of the bin.
\<close>

definition quarter_sum ::
  "('f :: {zero, one, plus, times}, 'b) Floats \<Rightarrow> Term \<Rightarrow> ('f, 'b) DataSetInteraction \<Rightarrow> nat \<Rightarrow> nat \<Rightarrow> 'f" where
  "quarter_sum env pTerm pDataSet cSamples i =
     foldl (\<lambda>a s. if sample_index pTerm pDataSet s = i
                   then a + FloatFast_quarter env * sample_weight pDataSet s else a)
       0 [0..<cSamples]"

definition hessian_bound_by_quarters ::
  "('f :: {zero, one, plus, times, ord}, 'b) Floats \<Rightarrow> Term \<Rightarrow> ('f, 'b) DataSetInteraction \<Rightarrow> 'f Bin list \<Rightarrow> bool" where
  "hessian_bound_by_quarters env pTerm pDataSet aBins =
     list_all (\<lambda>i. list_all (\<lambda>pair. 0 \<le> m_sumHessians pair \<and>
                         m_sumHessians pair \<le> quarter_sum env pTerm pDataSet (m_cSamplesDataSet pDataSet) i)
                 (m_aGradientPairs (aBins ! i)))
       [0..<length aBins]"

text \<open>
  What the bound asks of the float type, and what IEEE arithmetic gives in every
  rounding mode: sums and products of values that are not negative are not negative,
  and they grow with their arguments. The order is that of the float type, in which a
  \<open>NaN\<close> compares with nothing.
\<close>

definition monotone_floats :: "('f :: {zero, plus, times, ord}, 'b) Floats \<Rightarrow> bool" where
  "monotone_floats env =
     ((0 :: 'f) \<le> 0 \<and>
      (\<forall>a b c d :: 'f. 0 \<le> a \<and> a \<le> b \<and> 0 \<le> c \<and> c \<le> d \<longrightarrow> 0 \<le> a + c \<and> a + c \<le> b + d) \<and>
      (\<forall>h w :: 'f. 0 \<le> h \<and> h \<le> FloatFast_quarter env \<and> 0 \<le> w \<and> \<not> std_isinf env w \<longrightarrow>
                   0 \<le> h * w \<and> h * w \<le> FloatFast_quarter env * w))"

text \<open>
  Arithmetic in which the multiplication by \<open>0.25\<close> is exact, as over the real numbers.
  And a float type that adds quarters exactly up to \<open>N\<close> of them: \<open>embq n\<close> is the float
  of \<open>n / 4\<close>.
\<close>

definition exact_scaling :: "('f :: {zero, plus, times}, 'b) Floats \<Rightarrow> bool" where
  "exact_scaling env =
     (FloatFast_quarter env * 0 = 0 \<and>
      (\<forall>a b :: 'f. FloatFast_quarter env * a + FloatFast_quarter env * b = FloatFast_quarter env * (a + b)))"

definition exact_quarters :: "('f :: {zero, one, plus, times}, 'b) Floats \<Rightarrow> (nat \<Rightarrow> 'f) \<Rightarrow> nat \<Rightarrow> bool" where
  "exact_quarters env embq N =
     (embq 0 = 0 \<and> (\<forall>a \<in> {..<N}. embq a + FloatFast_quarter env * 1 = embq (a + 1)))"

section \<open>InitializeGradientsAndHessians.cpp: the boosting initializer\<close>

text \<open>
  Modelled from the spec: \<open>EbmStats::ComputeGradientRegressionRmseInit\<close> is declared in
  \<open>ebm_stats.hpp\<close>, which is not among the sources. The spec gives the RMSE gradient as
  "\<open>initScore - target\<close>".
\<close>

definition ComputeGradientRegressionRmseInit :: "('f :: minus) \<Rightarrow> 'f \<Rightarrow> 'f" where
  "ComputeGradientRegressionRmseInit initScore target = initScore - target"

text \<open>
  A replication count (\<open>BagEbm\<close>) is a signed integer. The gradient buffer of a subset
  has \<open>GetCountSamples()\<close> entries: the count of a subset is the length of its buffer,
  and \<open>pGradientAndHessian\<close> is an offset into the buffer of subset \<open>pSubset\<close>. The
  targets that \<open>GetDataSetSharedTarget\<close> finds in the shared dataset, the bag and the
  initial scores are arrays that are only read; \<open>SafeConvertFloat\<close>, from the type of
  the initial scores to the float type of the gradients, is a parameter.

  A loop that ends the function from inside says so in its result.
\<close>

datatype ('r, 's) flow = Returned 'r | Continues 's

record 'f DataSubsetBoosting =
  m_aGradHessBoosting :: "'f list"

text \<open>
  The inner \<open>do ... while(BagEbm { 0 } == replication)\<close>: it reads replication counts
  up to the first that is not zero, moving \<open>pSampleReplication\<close> and \<open>pTargetData\<close> on.
\<close>

function InitializeRmseBoosting_skip :: "int list \<Rightarrow> nat \<Rightarrow> nat \<Rightarrow> fault + (int \<times> nat \<times> nat)" where
  "InitializeRmseBoosting_skip aBag pSampleReplication pTargetData =
     (if length aBag \<le> pSampleReplication then Inl OutOfBounds
      else
        let replication = aBag ! pSampleReplication
        in if 0 = replication
           then InitializeRmseBoosting_skip aBag (pSampleReplication + 1) (pTargetData + 1)
           else Inr (replication, pSampleReplication + 1, pTargetData + 1))"
  by pat_completeness auto
termination
  by (relation "measure (\<lambda>(aBag, pSampleReplication, pTargetData). length aBag - pSampleReplication)") auto

declare InitializeRmseBoosting_skip.simps [simp del]

lemma InitializeRmseBoosting_skip_advances:
  "InitializeRmseBoosting_skip aBag p t = Inr (r, p', t') \<Longrightarrow> p < p' \<and> p' \<le> length aBag"
proof (induction aBag p t rule: InitializeRmseBoosting_skip.induct)
  case (1 aBag p t)
  note prem = "1.prems" [unfolded InitializeRmseBoosting_skip.simps [of aBag p t]]
  show ?case
  proof (cases "length aBag \<le> p")
    case True
    with prem show ?thesis by simp
  next
    case False
    show ?thesis
    proof (cases "0 = aBag ! p")
      case True
      with prem False have "InitializeRmseBoosting_skip aBag (p + 1) (t + 1) = Inr (r, p', t')"
        by (simp add: Let_def)
      from "1.IH" [OF False refl True this] show ?thesis by simp
    next
      case nz: False
      with prem False show ?thesis by (auto simp: Let_def)
    qed
  qed
qed

text \<open>
  The outer \<open>do ... while(isLoopValidation != isItemValidation)\<close>: it goes on to the
  next replication count of the sign of the pass, and counts the non-zero counts it
  read in \<open>cInitAdvances\<close>.
\<close>

function InitializeRmseBoosting_next ::
  "bool \<Rightarrow> int list \<Rightarrow> nat \<Rightarrow> nat \<Rightarrow> nat \<Rightarrow> fault + (int \<times> nat \<times> nat \<times> nat)" where
  "InitializeRmseBoosting_next isLoopValidation aBag pSampleReplication pTargetData cInitAdvances =
     (case InitializeRmseBoosting_skip aBag pSampleReplication pTargetData of
        Inl e \<Rightarrow> Inl e
      | Inr (replication, pSampleReplication', pTargetData') \<Rightarrow>
          let isItemValidation = replication < 0;
              cInitAdvances' = cInitAdvances + 1
          in if isLoopValidation \<noteq> isItemValidation
             then InitializeRmseBoosting_next isLoopValidation aBag pSampleReplication' pTargetData'
                    cInitAdvances'
             else Inr (replication, pSampleReplication', pTargetData', cInitAdvances'))"
  by pat_completeness auto
termination
proof (relation "measure (\<lambda>(isLoopValidation, aBag, pSampleReplication, pTargetData, cInitAdvances).
        length aBag - pSampleReplication)", goal_cases)
  case 1
  show ?case by simp
next
  case (2 isLoopValidation aBag p t c x y z yy zz)
  then have "InitializeRmseBoosting_skip aBag p t = Inr (y, fst z, snd z)" by simp
  from InitializeRmseBoosting_skip_advances [OF this] 2 show ?case by auto
qed

declare InitializeRmseBoosting_next.simps [simp del]

text \<open>
  The \<open>do ... while(BagEbm { 0 } != replication)\<close> that writes the gradient of a
  sample: once per step, into the next entry of the gradient buffers, going on to the
  next subset at the end of a buffer and ending the function at the end of the last.
  The entry written must exist (the assertion \<open>pGradientAndHessian <
  pGradientAndHessianEnd\<close>; a write outside the buffer is undefined in any build).
\<close>

lemma drop_update_same: "s < length xs \<Longrightarrow> drop s (xs[s := y]) = y # drop (Suc s) xs"
  by (metis Cons_nth_drop_Suc drop_update_cancel length_list_update lessI nth_list_update_eq)

function InitializeRmseBoosting_write ::
  "bool \<Rightarrow> int \<Rightarrow> 'f \<Rightarrow> int \<Rightarrow> nat \<Rightarrow> nat \<Rightarrow> 'f DataSubsetBoosting list \<Rightarrow>
   fault + ('f DataSubsetBoosting list, nat \<times> nat \<times> 'f DataSubsetBoosting list) flow" where
  "InitializeRmseBoosting_write dbg direction gradient replication pSubset pGradientAndHessian aSubsets =
     (if length aSubsets \<le> pSubset then Inl OutOfBounds
      else if length (m_aGradHessBoosting (aSubsets ! pSubset)) \<le> pGradientAndHessian
      then Inl (if dbg then AssertionFailed else OutOfBounds)
      else
        let aSubsets' = aSubsets[pSubset := (aSubsets ! pSubset)
              \<lparr>m_aGradHessBoosting :=
                 (m_aGradHessBoosting (aSubsets ! pSubset))[pGradientAndHessian := gradient]\<rparr>];
            pGradientAndHessian' = pGradientAndHessian + 1
        in if length (m_aGradHessBoosting (aSubsets ! pSubset)) = pGradientAndHessian' then
             let pSubset' = pSubset + 1
             in if length aSubsets = pSubset' then Inr (Returned aSubsets')
                else if dbg \<and> \<not> 1 \<le> length (m_aGradHessBoosting (aSubsets' ! pSubset'))
                then Inl AssertionFailed
                else
                  let replication' = replication - direction
                  in if 0 \<noteq> replication'
                     then InitializeRmseBoosting_write dbg direction gradient replication' pSubset' 0 aSubsets'
                     else Inr (Continues (pSubset', 0, aSubsets'))
           else
             let replication' = replication - direction
             in if 0 \<noteq> replication'
                then InitializeRmseBoosting_write dbg direction gradient replication' pSubset
                       pGradientAndHessian' aSubsets'
                else Inr (Continues (pSubset, pGradientAndHessian', aSubsets')))"
  by pat_completeness auto
termination
proof (relation "measure (\<lambda>(dbg, direction, gradient, replication, pSubset, pGradientAndHessian, aSubsets).
        sum_list (map (\<lambda>s. length (m_aGradHessBoosting s)) (drop pSubset aSubsets)) - pGradientAndHessian)",
    goal_cases)
  case 1
  show ?case by simp
next
  case (2 dbg direction gradient replication pSubset p aSubsets aSubsets' p' pSubset' replication')
  then have s: "pSubset < length aSubsets" and e: "length (m_aGradHessBoosting (aSubsets ! pSubset)) = p + 1"
    by simp_all
  have "drop (Suc pSubset) aSubsets' = drop (Suc pSubset) aSubsets"
    using 2 by simp
  moreover have "drop pSubset aSubsets = aSubsets ! pSubset # drop (Suc pSubset) aSubsets"
    using s by (simp add: Cons_nth_drop_Suc)
  ultimately show ?case using 2 e by simp
next
  case (3 dbg direction gradient replication pSubset p aSubsets aSubsets' p' replication')
  then have s: "pSubset < length aSubsets" and e: "p < length (m_aGradHessBoosting (aSubsets ! pSubset))"
    by simp_all
  have "drop pSubset aSubsets = aSubsets ! pSubset # drop (Suc pSubset) aSubsets"
    using s by (simp add: Cons_nth_drop_Suc)
  then show ?case using 3 s e by (simp add: drop_update_same)
qed

declare InitializeRmseBoosting_write.simps [simp del]

text \<open>The entries of the gradient buffers from an entry on: what is left to write.\<close>

definition entries_left :: "'f DataSubsetBoosting list \<Rightarrow> nat \<Rightarrow> nat \<Rightarrow> nat" where
  "entries_left aSubsets pSubset pGradientAndHessian =
     sum_list (map (\<lambda>s. length (m_aGradHessBoosting s)) (drop pSubset aSubsets)) - pGradientAndHessian"

lemma InitializeRmseBoosting_write_left:
  "InitializeRmseBoosting_write dbg direction gradient replication pSubset p aSubsets =
     Inr (Continues (pSubset', p', aSubsets')) \<Longrightarrow>
   entries_left aSubsets' pSubset' p' < entries_left aSubsets pSubset p"
proof (induction dbg direction gradient replication pSubset p aSubsets
    rule: InitializeRmseBoosting_write.induct)
  case (1 dbg direction gradient replication pSubset p aSubsets)
  note prem = "1.prems" [unfolded InitializeRmseBoosting_write.simps
      [of dbg direction gradient replication pSubset p aSubsets]]
  let ?buf = "m_aGradHessBoosting (aSubsets ! pSubset)"
  let ?w = "aSubsets[pSubset := (aSubsets ! pSubset)\<lparr>m_aGradHessBoosting := ?buf[p := gradient]\<rparr>]"
  from prem have s: "\<not> length aSubsets \<le> pSubset" and e: "\<not> length ?buf \<le> p"
    by (auto split: if_splits)
  have d: "drop pSubset aSubsets = aSubsets ! pSubset # drop (Suc pSubset) aSubsets"
    using s by (simp add: Cons_nth_drop_Suc)
  show ?case
  proof (cases "length ?buf = p + 1")
    case True
    have one: "entries_left ?w (pSubset + 1) 0 < entries_left aSubsets pSubset p"
      using s True by (simp add: entries_left_def d)
    from prem s e True have n: "length aSubsets \<noteq> pSubset + 1"
      and a: "\<not> (dbg \<and> \<not> 1 \<le> length (m_aGradHessBoosting (?w ! (pSubset + 1))))"
      by (auto simp: Let_def split: if_splits)
    show ?thesis
    proof (cases "0 \<noteq> replication - direction")
      case True
      with prem s e \<open>length ?buf = p + 1\<close> n a
      have "InitializeRmseBoosting_write dbg direction gradient (replication - direction) (pSubset + 1) 0 ?w =
            Inr (Continues (pSubset', p', aSubsets'))"
        by (auto simp: Let_def split: if_splits)
      from "1.IH"(1) [OF s e refl refl \<open>length ?buf = p + 1\<close> refl n a refl True this] one
      show ?thesis by simp
    next
      case False
      with prem s e \<open>length ?buf = p + 1\<close> n a
      have "pSubset' = pSubset + 1" "p' = 0" "aSubsets' = ?w"
        by (auto simp: Let_def split: if_splits)
      with one show ?thesis by simp
    qed
  next
    case ne: False
    have one: "entries_left ?w pSubset (p + 1) < entries_left aSubsets pSubset p"
      using s e by (simp add: entries_left_def d drop_update_same)
    show ?thesis
    proof (cases "0 \<noteq> replication - direction")
      case True
      with prem s e ne
      have "InitializeRmseBoosting_write dbg direction gradient (replication - direction) pSubset (p + 1) ?w =
            Inr (Continues (pSubset', p', aSubsets'))"
        by (simp add: Let_def)
      from "1.IH"(2) [OF s e refl refl ne refl True this] one
      show ?thesis by simp
    next
      case False
      with prem s e ne have "pSubset' = pSubset" "p' = p + 1" "aSubsets' = ?w"
        by (auto simp: Let_def)
      with one show ?thesis by simp
    qed
  qed
qed

text \<open>
  The \<open>while(true)\<close> of \<open>InitializeRmseGradientsAndHessiansBoosting\<close>: it finds the next
  sample of the pass (every sample, once, when there is no bag), reads its target and
  its initial score (0 when there are none), and writes its gradient.
\<close>

function InitializeRmseBoosting_loop ::
  "bool \<Rightarrow> ('d \<Rightarrow> 'f) \<Rightarrow> int \<Rightarrow> bool \<Rightarrow> ('f :: {zero, minus}) list \<Rightarrow> int list option \<Rightarrow> 'd list option \<Rightarrow>
   nat \<Rightarrow> nat \<Rightarrow> nat \<Rightarrow> nat \<Rightarrow> nat \<Rightarrow> 'f DataSubsetBoosting list \<Rightarrow> fault + 'f DataSubsetBoosting list" where
  "InitializeRmseBoosting_loop dbg SafeConvertFloat direction isLoopValidation aTargets aBag aInitScores
     pSampleReplication pTargetData pInitScore pSubset pGradientAndHessian aSubsets =
     (case (case aBag of
              None \<Rightarrow> Inr (1, pSampleReplication, pTargetData, 1)
            | Some bag \<Rightarrow>
                (case InitializeRmseBoosting_next isLoopValidation bag pSampleReplication pTargetData 1 of
                   Inl e \<Rightarrow> Inl e
                 | Inr (replication, pSampleReplication', pTargetData', cInitAdvances) \<Rightarrow>
                     Inr (replication, pSampleReplication', pTargetData' - 1, cInitAdvances - 1))) of
        Inl e \<Rightarrow> Inl e
      | Inr (replication, pSampleReplication', pTargetData', cInitAdvances) \<Rightarrow>
          if length aTargets \<le> pTargetData' then Inl OutOfBounds
          else
            let data = aTargets ! pTargetData';
                pTargetData'' = pTargetData' + 1
            in case (case aInitScores of
                       None \<Rightarrow> Inr (0, pInitScore)
                     | Some scores \<Rightarrow>
                         let pInitScore' = pInitScore + cInitAdvances
                         in if length scores \<le> pInitScore' - 1 then Inl OutOfBounds
                            else Inr (SafeConvertFloat (scores ! (pInitScore' - 1)), pInitScore')) of
                 Inl e \<Rightarrow> Inl e
               | Inr (initScore, pInitScore') \<Rightarrow>
                   let gradient = ComputeGradientRegressionRmseInit initScore data
                   in case InitializeRmseBoosting_write dbg direction gradient replication pSubset
                             pGradientAndHessian aSubsets of
                        Inl e \<Rightarrow> Inl e
                      | Inr (Returned aSubsets') \<Rightarrow> Inr aSubsets'
                      | Inr (Continues (pSubset', pGradientAndHessian', aSubsets')) \<Rightarrow>
                          InitializeRmseBoosting_loop dbg SafeConvertFloat direction isLoopValidation
                            aTargets aBag aInitScores pSampleReplication' pTargetData'' pInitScore'
                            pSubset' pGradientAndHessian' aSubsets')"
  by pat_completeness auto
termination
proof (relation "measure (\<lambda>(dbg, SafeConvertFloat, direction, isLoopValidation, aTargets, aBag,
        aInitScores, pSampleReplication, pTargetData, pInitScore, pSubset, pGradientAndHessian, aSubsets).
        entries_left aSubsets pSubset pGradientAndHessian)", goal_cases)
  case 1
  show ?case by simp
next
  case 2
  then show ?case
    by (auto dest: InitializeRmseBoosting_write_left)
qed

declare InitializeRmseBoosting_loop.simps [simp del]

text \<open>
  \<open>InitializeRmseGradientsAndHessiansBoosting\<close>. The dataset has its count of samples
  and its subsets; it is returned with the gradient buffers written.
\<close>

record 'f DataSetBoosting =
  m_cSamplesBoosting :: nat
  m_aSubsetsBoosting :: "'f DataSubsetBoosting list"

definition InitializeRmseGradientsAndHessiansBoosting ::
  "bool \<Rightarrow> ('d \<Rightarrow> 'f) \<Rightarrow> ('f :: {zero, minus}) list \<Rightarrow> classes \<Rightarrow> int \<Rightarrow> int list option \<Rightarrow> 'd list option \<Rightarrow>
   'f DataSetBoosting \<Rightarrow> fault + 'f DataSetBoosting" where
  "InitializeRmseGradientsAndHessiansBoosting dbg SafeConvertFloat aTargets cRuntimeClasses direction
     aBag aInitScores pDataSet =
     (if dbg \<and> \<not> IsRegression cRuntimeClasses then Inl AssertionFailed
      else if dbg \<and> \<not> 1 \<le> m_cSamplesBoosting pDataSet then Inl AssertionFailed
      else if dbg \<and> \<not> 1 \<le> length (m_aSubsetsBoosting pDataSet) then Inl AssertionFailed
      else if dbg \<and> \<not> (- 1 = direction \<or> 1 = direction) then Inl AssertionFailed
      else
        let pSampleReplication = 0;
            isLoopValidation = direction < 0
        in if dbg \<and> \<not> (aBag \<noteq> None \<or> \<not> isLoopValidation) then Inl AssertionFailed
           else
             let pTargetData = 0;
                 pInitScore = 0;
                 pSubset = 0
             in if length (m_aSubsetsBoosting pDataSet) \<le> pSubset then Inl OutOfBounds
                else if dbg \<and> \<not> 1 \<le> length (m_aGradHessBoosting (m_aSubsetsBoosting pDataSet ! pSubset))
                then Inl AssertionFailed
                else
                  let pGradientAndHessian = 0
                  in case InitializeRmseBoosting_loop dbg SafeConvertFloat direction isLoopValidation
                            aTargets aBag aInitScores pSampleReplication pTargetData pInitScore
                            pSubset pGradientAndHessian (m_aSubsetsBoosting pDataSet) of
                       Inl e \<Rightarrow> Inl e
                     | Inr aSubsets' \<Rightarrow> Inr (pDataSet\<lparr>m_aSubsetsBoosting := aSubsets'\<rparr>))"

section \<open>InitializeGradientsAndHessians.cpp: the interaction initializer\<close>

text \<open>
  A subset of the interaction dataset has its gradient buffer, of \<open>GetCountSamples()\<close>
  entries, and its weights, which \<open>GetWeights()\<close> returns (\<open>nullptr\<close> is \<open>None\<close>).
  \<open>pWeight\<close> is \<open>nullptr\<close> or an offset into the weights of the subset \<open>pSubset\<close>: it is
  set again from \<open>GetWeights()\<close> whenever \<open>pSubset\<close> moves on.
\<close>

record 'f DataSubsetInteraction =
  m_aGradHessInteraction :: "'f list"
  m_aWeightsInteraction :: "'f list option"

definition GetWeights :: "'f DataSubsetInteraction \<Rightarrow> nat option" where
  "GetWeights pSubset = (case m_aWeightsInteraction pSubset of None \<Rightarrow> None | Some ws \<Rightarrow> Some 0)"

text \<open>The inner \<open>do ... while(BagEbm { 0 } == replication)\<close>, as in the boosting initializer.\<close>

function InitializeRmseInteraction_skip :: "int list \<Rightarrow> nat \<Rightarrow> nat \<Rightarrow> fault + (int \<times> nat \<times> nat)" where
  "InitializeRmseInteraction_skip aBag pSampleReplication pTargetData =
     (if length aBag \<le> pSampleReplication then Inl OutOfBounds
      else
        let replication = aBag ! pSampleReplication
        in if 0 = replication
           then InitializeRmseInteraction_skip aBag (pSampleReplication + 1) (pTargetData + 1)
           else Inr (replication, pSampleReplication + 1, pTargetData + 1))"
  by pat_completeness auto
termination
  by (relation "measure (\<lambda>(aBag, pSampleReplication, pTargetData). length aBag - pSampleReplication)") auto

declare InitializeRmseInteraction_skip.simps [simp del]

lemma InitializeRmseInteraction_skip_boosting:
  "InitializeRmseInteraction_skip aBag p t = InitializeRmseBoosting_skip aBag p t"
proof (induction aBag p t rule: InitializeRmseInteraction_skip.induct)
  case (1 aBag p t)
  show ?case
  proof (cases "\<not> length aBag \<le> p \<and> 0 = aBag ! p")
    case True
    then have "InitializeRmseInteraction_skip aBag (p + 1) (t + 1) = InitializeRmseBoosting_skip aBag (p + 1) (t + 1)"
      using "1.IH" by simp
    with True show ?thesis
      by (subst InitializeRmseInteraction_skip.simps, subst InitializeRmseBoosting_skip.simps)
        (simp add: Let_def)
  next
    case False
    then show ?thesis
      by (subst InitializeRmseInteraction_skip.simps, subst InitializeRmseBoosting_skip.simps)
        (auto simp: Let_def)
  qed
qed

text \<open>
  The outer \<open>do ... while(replication < BagEbm { 0 })\<close>: it goes on past the negative
  replication counts, and counts the non-zero counts it read in \<open>cInitAdvances\<close>.
\<close>

function InitializeRmseInteraction_next ::
  "int list \<Rightarrow> nat \<Rightarrow> nat \<Rightarrow> nat \<Rightarrow> fault + (int \<times> nat \<times> nat \<times> nat)" where
  "InitializeRmseInteraction_next aBag pSampleReplication pTargetData cInitAdvances =
     (case InitializeRmseInteraction_skip aBag pSampleReplication pTargetData of
        Inl e \<Rightarrow> Inl e
      | Inr (replication, pSampleReplication', pTargetData') \<Rightarrow>
          let cInitAdvances' = cInitAdvances + 1
          in if replication < 0
             then InitializeRmseInteraction_next aBag pSampleReplication' pTargetData' cInitAdvances'
             else Inr (replication, pSampleReplication', pTargetData', cInitAdvances'))"
  by pat_completeness auto
termination
proof (relation "measure (\<lambda>(aBag, pSampleReplication, pTargetData, cInitAdvances).
        length aBag - pSampleReplication)", goal_cases)
  case 1
  show ?case by simp
next
  case (2 aBag p t c x y z yy zz)
  then have "InitializeRmseBoosting_skip aBag p t = Inr (y, fst z, snd z)"
    by (simp add: InitializeRmseInteraction_skip_boosting)
  from InitializeRmseBoosting_skip_advances [OF this] 2 show ?case by auto
qed

declare InitializeRmseInteraction_next.simps [simp del]

text \<open>
  The \<open>do ... while(BagEbm { 0 } != replication)\<close> that writes the gradient of a
  sample, \<open>replication\<close> going down by one at each step. Going on to the next subset
  sets \<open>pWeight\<close> to the weights of that subset.
\<close>

function InitializeRmseInteraction_write ::
  "bool \<Rightarrow> 'f \<Rightarrow> int \<Rightarrow> nat \<Rightarrow> nat \<Rightarrow> nat option \<Rightarrow> 'f DataSubsetInteraction list \<Rightarrow>
   fault + ('f DataSubsetInteraction list, nat \<times> nat \<times> nat option \<times> 'f DataSubsetInteraction list) flow" where
  "InitializeRmseInteraction_write dbg gradient replication pSubset pGradientAndHessian pWeight aSubsets =
     (if length aSubsets \<le> pSubset then Inl OutOfBounds
      else if length (m_aGradHessInteraction (aSubsets ! pSubset)) \<le> pGradientAndHessian
      then Inl (if dbg then AssertionFailed else OutOfBounds)
      else
        let aSubsets' = aSubsets[pSubset := (aSubsets ! pSubset)
              \<lparr>m_aGradHessInteraction :=
                 (m_aGradHessInteraction (aSubsets ! pSubset))[pGradientAndHessian := gradient]\<rparr>];
            pGradientAndHessian' = pGradientAndHessian + 1
        in if length (m_aGradHessInteraction (aSubsets ! pSubset)) = pGradientAndHessian' then
             let pSubset' = pSubset + 1
             in if length aSubsets = pSubset' then Inr (Returned aSubsets')
                else if dbg \<and> \<not> 1 \<le> length (m_aGradHessInteraction (aSubsets' ! pSubset'))
                then Inl AssertionFailed
                else
                  let pWeight' = GetWeights (aSubsets' ! pSubset');
                      replication' = replication - 1
                  in if 0 \<noteq> replication'
                     then InitializeRmseInteraction_write dbg gradient replication' pSubset' 0 pWeight' aSubsets'
                     else Inr (Continues (pSubset', 0, pWeight', aSubsets'))
           else
             let replication' = replication - 1
             in if 0 \<noteq> replication'
                then InitializeRmseInteraction_write dbg gradient replication' pSubset
                       pGradientAndHessian' pWeight aSubsets'
                else Inr (Continues (pSubset, pGradientAndHessian', pWeight, aSubsets')))"
  by pat_completeness auto
termination
proof (relation "measure (\<lambda>(dbg, gradient, replication, pSubset, pGradientAndHessian, pWeight, aSubsets).
        sum_list (map (\<lambda>s. length (m_aGradHessInteraction s)) (drop pSubset aSubsets)) - pGradientAndHessian)",
    goal_cases)
  case 1
  show ?case by simp
next
  case (2 dbg gradient replication pSubset p pWeight aSubsets aSubsets' p' pSubset' pWeight' replication')
  then have s: "pSubset < length aSubsets" and e: "length (m_aGradHessInteraction (aSubsets ! pSubset)) = p + 1"
    by simp_all
  have "drop (Suc pSubset) aSubsets' = drop (Suc pSubset) aSubsets"
    using 2 by simp
  moreover have "drop pSubset aSubsets = aSubsets ! pSubset # drop (Suc pSubset) aSubsets"
    using s by (simp add: Cons_nth_drop_Suc)
  ultimately show ?case using 2 e by simp
next
  case (3 dbg gradient replication pSubset p pWeight aSubsets aSubsets' p' replication')
  then have s: "pSubset < length aSubsets" and e: "p < length (m_aGradHessInteraction (aSubsets ! pSubset))"
    by simp_all
  have "drop pSubset aSubsets = aSubsets ! pSubset # drop (Suc pSubset) aSubsets"
    using s by (simp add: Cons_nth_drop_Suc)
  then show ?case using 3 s e by (simp add: drop_update_same)
qed

declare InitializeRmseInteraction_write.simps [simp del]

text \<open>
  The write loop is that of the boosting initializer in the training direction, on
  the gradient buffers alone.
\<close>

definition boosting_of :: "'f DataSubsetInteraction \<Rightarrow> 'f DataSubsetBoosting" where
  "boosting_of pSubset = \<lparr>m_aGradHessBoosting = m_aGradHessInteraction pSubset\<rparr>"

definition forget_weights ::
  "fault + ('f DataSubsetInteraction list, nat \<times> nat \<times> nat option \<times> 'f DataSubsetInteraction list) flow \<Rightarrow>
   fault + ('f DataSubsetBoosting list, nat \<times> nat \<times> 'f DataSubsetBoosting list) flow" where
  "forget_weights res =
     (case res of
        Inl e \<Rightarrow> Inl e
      | Inr (Returned aSubsets) \<Rightarrow> Inr (Returned (map boosting_of aSubsets))
      | Inr (Continues (pSubset, pGradientAndHessian, pWeight, aSubsets)) \<Rightarrow>
          Inr (Continues (pSubset, pGradientAndHessian, map boosting_of aSubsets)))"

lemma boosting_of_buffer [simp]:
  "m_aGradHessBoosting (boosting_of x) = m_aGradHessInteraction x"
  by (simp add: boosting_of_def)

lemma boosting_of_write:
  "(map boosting_of xs)[s := boosting_of (xs ! s)
      \<lparr>m_aGradHessBoosting := (m_aGradHessInteraction (xs ! s))[p := g]\<rparr>] =
   map boosting_of (xs[s := (xs ! s)\<lparr>m_aGradHessInteraction := (m_aGradHessInteraction (xs ! s))[p := g]\<rparr>])"
  by (simp add: map_update boosting_of_def)

lemma InitializeRmseInteraction_write_boosting:
  "InitializeRmseBoosting_write dbg 1 g r s p (map boosting_of xs) =
   forget_weights (InitializeRmseInteraction_write dbg g r s p w xs)"
proof (induction dbg g r s p w xs rule: InitializeRmseInteraction_write.induct)
  case (1 dbg g r s p w xs)
  note I = InitializeRmseInteraction_write.simps [of dbg g r s p w xs]
  note B = InitializeRmseBoosting_write.simps [of dbg 1 g r s p "map boosting_of xs"]
  let ?buf = "m_aGradHessInteraction (xs ! s)"
  let ?w = "xs[s := (xs ! s)\<lparr>m_aGradHessInteraction := ?buf[p := g]\<rparr>]"
  show ?case
  proof (cases "length xs \<le> s")
    case True
    then show ?thesis by (subst I, subst B) (simp add: forget_weights_def)
  next
    case s: False
    then have s': "s < length xs" by simp
    note W = boosting_of_write [of xs s p g]
    show ?thesis
    proof (cases "length ?buf \<le> p")
      case True
      with s show ?thesis by (subst I, subst B) (simp add: forget_weights_def)
    next
      case e: False
      show ?thesis
      proof (cases "length ?buf = p + 1")
        case True
        show ?thesis
        proof (cases "length xs = s + 1")
          case last: True
          with s e True show ?thesis
            by (subst I, subst B) (simp add: Let_def forget_weights_def W)
        next
          case more: False
          then have s1: "s + 1 < length xs" using s by simp
          have b1: "m_aGradHessBoosting (map boosting_of ?w ! (s + 1)) = m_aGradHessInteraction (?w ! (s + 1))"
            using s1 by simp
          show ?thesis
          proof (cases "dbg \<and> \<not> 1 \<le> length (m_aGradHessInteraction (?w ! (s + 1)))")
            case a: True
            have "InitializeRmseInteraction_write dbg g r s p w xs = Inl AssertionFailed"
              using s e True more a by (subst I) (auto simp: Let_def)
            moreover have "InitializeRmseBoosting_write dbg 1 g r s p (map boosting_of xs) = Inl AssertionFailed"
              using s e True more a b1 by (subst B) (auto simp: Let_def W)
            ultimately show ?thesis by (simp add: forget_weights_def)
          next
            case a: False
            show ?thesis
            proof (cases "0 \<noteq> r - 1")
              case r: True
              have "InitializeRmseInteraction_write dbg g r s p w xs =
                  InitializeRmseInteraction_write dbg g (r - 1) (s + 1) 0 (GetWeights (?w ! (s + 1))) ?w"
                using s e True more a r by (subst I) (auto simp: Let_def)
              moreover have "InitializeRmseBoosting_write dbg 1 g r s p (map boosting_of xs) =
                  InitializeRmseBoosting_write dbg 1 g (r - 1) (s + 1) 0 (map boosting_of ?w)"
                using s e True more a b1 r by (subst B) (auto simp: Let_def W)
              moreover note "1.IH"(1) [OF s e refl refl True refl more a refl refl r]
              ultimately show ?thesis by simp
            next
              case r: False
              have "InitializeRmseInteraction_write dbg g r s p w xs =
                  Inr (Continues (s + 1, 0, GetWeights (?w ! (s + 1)), ?w))"
                using s e True more a r by (subst I) (auto simp: Let_def)
              moreover have "InitializeRmseBoosting_write dbg 1 g r s p (map boosting_of xs) =
                  Inr (Continues (s + 1, 0, map boosting_of ?w))"
                using s e True more a b1 r by (subst B) (auto simp: Let_def W)
              ultimately show ?thesis by (simp add: forget_weights_def)
            qed
          qed
        qed
      next
        case ne: False
        show ?thesis
        proof (cases "0 \<noteq> r - 1")
          case r: True
          have "InitializeRmseInteraction_write dbg g r s p w xs =
              InitializeRmseInteraction_write dbg g (r - 1) s (p + 1) w ?w"
            using s e ne r by (subst I) (simp add: Let_def)
          moreover have "InitializeRmseBoosting_write dbg 1 g r s p (map boosting_of xs) =
              InitializeRmseBoosting_write dbg 1 g (r - 1) s (p + 1) (map boosting_of ?w)"
            using s e ne r by (subst B) (simp add: Let_def W)
          moreover note "1.IH"(2) [OF s e refl refl ne refl r]
          ultimately show ?thesis by simp
        next
          case r: False
          have "InitializeRmseInteraction_write dbg g r s p w xs = Inr (Continues (s, p + 1, w, ?w))"
            using s e ne r by (subst I) (simp add: Let_def)
          moreover have "InitializeRmseBoosting_write dbg 1 g r s p (map boosting_of xs) =
              Inr (Continues (s, p + 1, map boosting_of ?w))"
            using s e ne r by (subst B) (simp add: Let_def W)
          ultimately show ?thesis by (simp add: forget_weights_def)
        qed
      qed
    qed
  qed
qed

lemma InitializeRmseInteraction_write_left:
  assumes "InitializeRmseInteraction_write dbg g r s p w xs = Inr (Continues (s', p', w', xs'))"
  shows "entries_left (map boosting_of xs') s' p' < entries_left (map boosting_of xs) s p"
proof -
  have "InitializeRmseBoosting_write dbg 1 g r s p (map boosting_of xs) =
      Inr (Continues (s', p', map boosting_of xs'))"
    by (simp add: InitializeRmseInteraction_write_boosting [of dbg g r s p xs w] assms forget_weights_def)
  then show ?thesis by (rule InitializeRmseBoosting_write_left)
qed

text \<open>
  The \<open>while(true)\<close> of \<open>InitializeRmseGradientsAndHessiansInteraction\<close>: it finds the
  next sample whose replication count is positive (every sample, once, when there is
  no bag), reads its target and its initial score (0 when there are none); when
  \<open>pWeight\<close> is not \<open>nullptr\<close>, it multiplies the gradient by \<open>*pWeight\<close> and moves
  \<open>pWeight\<close> on by \<open>replication\<close>; then it writes the gradient.
\<close>

function InitializeRmseInteraction_loop ::
  "bool \<Rightarrow> ('d \<Rightarrow> 'f) \<Rightarrow> ('f :: {zero, minus, times}) list \<Rightarrow> int list option \<Rightarrow> 'd list option \<Rightarrow>
   nat \<Rightarrow> nat \<Rightarrow> nat \<Rightarrow> nat \<Rightarrow> nat \<Rightarrow> nat option \<Rightarrow> 'f DataSubsetInteraction list \<Rightarrow>
   fault + 'f DataSubsetInteraction list" where
  "InitializeRmseInteraction_loop dbg SafeConvertFloat aTargets aBag aInitScores
     pSampleReplication pTargetData pInitScore pSubset pGradientAndHessian pWeight aSubsets =
     (case (case aBag of
              None \<Rightarrow> Inr (1, pSampleReplication, pTargetData, 1)
            | Some bag \<Rightarrow>
                (case InitializeRmseInteraction_next bag pSampleReplication pTargetData 1 of
                   Inl e \<Rightarrow> Inl e
                 | Inr (replication, pSampleReplication', pTargetData', cInitAdvances) \<Rightarrow>
                     Inr (replication, pSampleReplication', pTargetData' - 1, cInitAdvances - 1))) of
        Inl e \<Rightarrow> Inl e
      | Inr (replication, pSampleReplication', pTargetData', cInitAdvances) \<Rightarrow>
          if length aTargets \<le> pTargetData' then Inl OutOfBounds
          else
            let data = aTargets ! pTargetData';
                pTargetData'' = pTargetData' + 1
            in case (case aInitScores of
                       None \<Rightarrow> Inr (0, pInitScore)
                     | Some scores \<Rightarrow>
                         let pInitScore' = pInitScore + cInitAdvances
                         in if length scores \<le> pInitScore' - 1 then Inl OutOfBounds
                            else Inr (SafeConvertFloat (scores ! (pInitScore' - 1)), pInitScore')) of
                 Inl e \<Rightarrow> Inl e
               | Inr (initScore, pInitScore') \<Rightarrow>
                   let gradient = ComputeGradientRegressionRmseInit initScore data
                   in case (case pWeight of
                              None \<Rightarrow> Inr (gradient, None)
                            | Some w \<Rightarrow>
                                if length aSubsets \<le> pSubset then Inl OutOfBounds
                                else
                                  (case m_aWeightsInteraction (aSubsets ! pSubset) of
                                     None \<Rightarrow> Inl OutOfBounds
                                   | Some ws \<Rightarrow>
                                       if length ws \<le> w then Inl OutOfBounds
                                       else Inr (gradient * ws ! w, Some (nat (int w + replication))))) of
                        Inl e \<Rightarrow> Inl e
                      | Inr (gradient', pWeight') \<Rightarrow>
                          (case InitializeRmseInteraction_write dbg gradient' replication pSubset
                                  pGradientAndHessian pWeight' aSubsets of
                             Inl e \<Rightarrow> Inl e
                           | Inr (Returned aSubsets') \<Rightarrow> Inr aSubsets'
                           | Inr (Continues (pSubset', pGradientAndHessian', pWeight'', aSubsets')) \<Rightarrow>
                               InitializeRmseInteraction_loop dbg SafeConvertFloat aTargets aBag aInitScores
                                 pSampleReplication' pTargetData'' pInitScore'
                                 pSubset' pGradientAndHessian' pWeight'' aSubsets'))"
  by pat_completeness auto
termination
proof (relation "measure (\<lambda>(dbg, SafeConvertFloat, aTargets, aBag, aInitScores, pSampleReplication,
        pTargetData, pInitScore, pSubset, pGradientAndHessian, pWeight, aSubsets).
        entries_left (map boosting_of aSubsets) pSubset pGradientAndHessian)", goal_cases)
  case 1
  show ?case by simp
next
  case 2
  then show ?case
    by (auto dest: InitializeRmseInteraction_write_left)
qed

declare InitializeRmseInteraction_loop.simps [simp del]

text \<open>
  \<open>InitializeRmseGradientsAndHessiansInteraction\<close>. The dataset, as the initializer
  reads it, has its count of samples and its subsets; it is returned with the gradient
  buffers written.
\<close>

record 'f DataSetInteractionSubsets =
  m_cSamplesInteraction :: nat
  m_aSubsetsInteraction :: "'f DataSubsetInteraction list"

definition InitializeRmseGradientsAndHessiansInteraction ::
  "bool \<Rightarrow> ('d \<Rightarrow> 'f) \<Rightarrow> ('f :: {zero, minus, times}) list \<Rightarrow> classes \<Rightarrow> int list option \<Rightarrow> 'd list option \<Rightarrow>
   'f DataSetInteractionSubsets \<Rightarrow> fault + 'f DataSetInteractionSubsets" where
  "InitializeRmseGradientsAndHessiansInteraction dbg SafeConvertFloat aTargets cRuntimeClasses
     aBag aInitScores pDataSet =
     (if dbg \<and> \<not> IsRegression cRuntimeClasses then Inl AssertionFailed
      else if dbg \<and> \<not> 1 \<le> m_cSamplesInteraction pDataSet then Inl AssertionFailed
      else if dbg \<and> \<not> 1 \<le> length (m_aSubsetsInteraction pDataSet) then Inl AssertionFailed
      else
        let pSubset = 0;
            pSampleReplication = 0;
            pTargetData = 0;
            pInitScore = 0
        in if length (m_aSubsetsInteraction pDataSet) \<le> pSubset then Inl OutOfBounds
           else if dbg \<and> \<not> 1 \<le> length (m_aGradHessInteraction (m_aSubsetsInteraction pDataSet ! pSubset))
           then Inl AssertionFailed
           else
             let pGradientAndHessian = 0;
                 pWeight = GetWeights (m_aSubsetsInteraction pDataSet ! pSubset)
             in case InitializeRmseInteraction_loop dbg SafeConvertFloat aTargets aBag aInitScores
                       pSampleReplication pTargetData pInitScore pSubset pGradientAndHessian pWeight
                       (m_aSubsetsInteraction pDataSet) of
                  Inl e \<Rightarrow> Inl e
                | Inr aSubsets' \<Rightarrow> Inr (pDataSet\<lparr>m_aSubsetsInteraction := aSubsets'\<rparr>))"

section \<open>The initial gradients as the spec words them\<close>

text \<open>
  A pass selects the entries of the bag of its sign: a negative count in the validation
  pass, a positive count in the training pass; zero is never selected.
\<close>

definition bag_selects :: "bool \<Rightarrow> int \<Rightarrow> bool" where
  "bag_selects isLoopValidation replication =
     (replication \<noteq> 0 \<and> (replication < 0) = isLoopValidation)"

text \<open>
  The gradients of a pass, in the order they are written: the bag is walked from
  sample \<open>i\<close> on; a zero entry is skipped; every other entry takes one initial score
  (\<open>j\<close> counts them); a selected entry \<open>r\<close> gives its gradient \<open>|r|\<close> times. The
  gradient \<open>g i j n\<close> of a sample may depend on the number \<open>n\<close> of gradients written
  before it.
\<close>

fun replicated_gradients ::
  "bool \<Rightarrow> (nat \<Rightarrow> nat \<Rightarrow> nat \<Rightarrow> 'f) \<Rightarrow> int list \<Rightarrow> nat \<Rightarrow> nat \<Rightarrow> nat \<Rightarrow> 'f list" where
  "replicated_gradients v g [] i j n = []"
| "replicated_gradients v g (r # bag) i j n =
     (if r = 0 then replicated_gradients v g bag (i + 1) j n
      else if bag_selects v r
      then replicate (nat \<bar>r\<bar>) (g i j n) @
           replicated_gradients v g bag (i + 1) (j + 1) (n + nat \<bar>r\<bar>)
      else replicated_gradients v g bag (i + 1) (j + 1) n)"

text \<open>
  The RMSE gradient of sample \<open>i\<close> whose initial score is the \<open>j\<close>-th:
  \<open>initScore - target\<close>, with the initial score 0 when there are none.
\<close>

definition rmse_gradient :: "('d \<Rightarrow> 'f) \<Rightarrow> ('f :: {zero, minus}) list \<Rightarrow> 'd list option \<Rightarrow> nat \<Rightarrow> nat \<Rightarrow> 'f" where
  "rmse_gradient SafeConvertFloat aTargets aInitScores i j =
     (case aInitScores of
        None \<Rightarrow> 0
      | Some scores \<Rightarrow> SafeConvertFloat (scores ! j)) - aTargets ! i"

definition rmse_gradients_boosting ::
  "('d \<Rightarrow> 'f) \<Rightarrow> ('f :: {zero, minus}) list \<Rightarrow> int \<Rightarrow> int list \<Rightarrow> 'd list option \<Rightarrow> 'f list" where
  "rmse_gradients_boosting SafeConvertFloat aTargets direction aBag aInitScores =
     replicated_gradients (direction < 0)
       (\<lambda>i j n. rmse_gradient SafeConvertFloat aTargets aInitScores i j) aBag 0 0 0"

text \<open>The gradient buffers of the subsets, one after the other, and their lengths.\<close>

definition gradients_boosting :: "'f DataSubsetBoosting list \<Rightarrow> 'f list" where
  "gradients_boosting aSubsets = concat (map m_aGradHessBoosting aSubsets)"

definition counts_boosting :: "'f DataSubsetBoosting list \<Rightarrow> nat list" where
  "counts_boosting aSubsets = map (\<lambda>s. length (m_aGradHessBoosting s)) aSubsets"

text \<open>
  The preconditions of the boosting initializer, for a bag: the direction is that of a
  pass; there is a subset and no subset is empty; the gradient buffers do not hold more
  entries than the pass has gradients; every sample of the bag has a target, and every
  sample that is not excluded has an initial score when there are initial scores.
\<close>

definition rmse_boosting_pre ::
  "('d \<Rightarrow> 'f) \<Rightarrow> ('f :: {zero, minus}) list \<Rightarrow> classes \<Rightarrow> int \<Rightarrow> int list \<Rightarrow> 'd list option \<Rightarrow>
   'f DataSetBoosting \<Rightarrow> bool" where
  "rmse_boosting_pre SafeConvertFloat aTargets cRuntimeClasses direction aBag aInitScores pDataSet =
     (IsRegression cRuntimeClasses \<and>
      1 \<le> m_cSamplesBoosting pDataSet \<and>
      (direction = 1 \<or> direction = - 1) \<and>
      m_aSubsetsBoosting pDataSet \<noteq> [] \<and>
      list_all (\<lambda>s. m_aGradHessBoosting s \<noteq> []) (m_aSubsetsBoosting pDataSet) \<and>
      length (gradients_boosting (m_aSubsetsBoosting pDataSet)) \<le>
        length (rmse_gradients_boosting SafeConvertFloat aTargets direction aBag aInitScores) \<and>
      length aBag \<le> length aTargets \<and>
      (case aInitScores of
         None \<Rightarrow> True
       | Some scores \<Rightarrow> length (filter (\<lambda>r. r \<noteq> 0) aBag) \<le> length scores))"

text \<open>
  An entry of the gradient buffers, by its subset and its offset there, and its index
  when the buffers are laid one after the other.
\<close>

definition at_entry :: "'f DataSubsetBoosting list \<Rightarrow> nat \<Rightarrow> nat \<Rightarrow> bool" where
  "at_entry aSubsets pSubset p =
     (pSubset < length aSubsets \<and> p < length (m_aGradHessBoosting (aSubsets ! pSubset)))"

definition entry_index :: "'f DataSubsetBoosting list \<Rightarrow> nat \<Rightarrow> nat \<Rightarrow> nat" where
  "entry_index aSubsets pSubset p = length (gradients_boosting (take pSubset aSubsets)) + p"

section \<open>The initial gradients of interaction detection\<close>

text \<open>The gradient buffers of the subsets, one after the other, and their lengths.\<close>

definition gradients_interaction :: "'f DataSubsetInteraction list \<Rightarrow> 'f list" where
  "gradients_interaction aSubsets = concat (map m_aGradHessInteraction aSubsets)"

definition counts_interaction :: "'f DataSubsetInteraction list \<Rightarrow> nat list" where
  "counts_interaction aSubsets = map (\<lambda>s. length (m_aGradHessInteraction s)) aSubsets"

text \<open>
  The weight of every entry of the gradient buffers, in the same order: that of the
  weights of its subset, or none when the subset has no weights.
\<close>

definition weights_interaction :: "'f DataSubsetInteraction list \<Rightarrow> 'f option list" where
  "weights_interaction aSubsets =
     concat (map (\<lambda>s. case m_aWeightsInteraction s of
                         None \<Rightarrow> replicate (length (m_aGradHessInteraction s)) None
                       | Some ws \<Rightarrow> map Some ws) aSubsets)"

definition weighted :: "('f :: times) option \<Rightarrow> 'f \<Rightarrow> 'f" where
  "weighted w gradient = (case w of None \<Rightarrow> gradient | Some weight \<Rightarrow> gradient * weight)"

text \<open>
  The gradients of interaction detection, in the order they are written: for every
  sample with a positive replication count \<open>r\<close>, \<open>r\<close> times its gradient
  \<open>initScore - target\<close>, multiplied by the weight of the first entry it is written to
  when that entry has a weight.
\<close>

definition rmse_gradients_interaction ::
  "('d \<Rightarrow> 'f) \<Rightarrow> ('f :: {zero, minus, times}) list \<Rightarrow> int list \<Rightarrow> 'd list option \<Rightarrow>
   'f DataSubsetInteraction list \<Rightarrow> 'f list" where
  "rmse_gradients_interaction SafeConvertFloat aTargets aBag aInitScores aSubsets =
     replicated_gradients False
       (\<lambda>i j n. weighted (weights_interaction aSubsets ! n)
                  (rmse_gradient SafeConvertFloat aTargets aInitScores i j)) aBag 0 0 0"

text \<open>
  What the spec says of the bag in interaction detection, "it treats all nonzero bag
  entries as in-scope, not just one sign": every entry \<open>r\<close> that is not zero gives its
  gradient \<open>|r|\<close> times.
\<close>

fun all_nonzero_gradients :: "(nat \<Rightarrow> nat \<Rightarrow> 'f) \<Rightarrow> int list \<Rightarrow> nat \<Rightarrow> nat \<Rightarrow> 'f list" where
  "all_nonzero_gradients g [] i j = []"
| "all_nonzero_gradients g (r # bag) i j =
     (if r = 0 then all_nonzero_gradients g bag (i + 1) j
      else replicate (nat \<bar>r\<bar>) (g i j) @ all_nonzero_gradients g bag (i + 1) (j + 1))"

text \<open>
  The first entry of the run of equal gradients that entry \<open>k\<close> of the buffers is in,
  and the first entry of a subset.
\<close>

definition run_start :: "int list \<Rightarrow> nat \<Rightarrow> nat" where
  "run_start aBag k = replicated_gradients False (\<lambda>i j n. n) aBag 0 0 0 ! k"

definition subset_start :: "'f DataSubsetInteraction list \<Rightarrow> nat \<Rightarrow> nat" where
  "subset_start aSubsets pSubset = length (gradients_interaction (take pSubset aSubsets))"

text \<open>
  The preconditions of the interaction initializer, for a bag: those of the boosting
  initializer; the weights of a subset, when it has weights, are as many as its
  gradients; and a subset that has weights starts with the first gradient of a sample
  (the replicas of a sample do not go on from the subset before).
\<close>

definition rmse_interaction_pre ::
  "('d \<Rightarrow> 'f) \<Rightarrow> ('f :: {zero, minus, times}) list \<Rightarrow> classes \<Rightarrow> int list \<Rightarrow> 'd list option \<Rightarrow>
   'f DataSetInteractionSubsets \<Rightarrow> bool" where
  "rmse_interaction_pre SafeConvertFloat aTargets cRuntimeClasses aBag aInitScores pDataSet =
     (IsRegression cRuntimeClasses \<and>
      1 \<le> m_cSamplesInteraction pDataSet \<and>
      m_aSubsetsInteraction pDataSet \<noteq> [] \<and>
      list_all (\<lambda>s. m_aGradHessInteraction s \<noteq> []) (m_aSubsetsInteraction pDataSet) \<and>
      length (gradients_interaction (m_aSubsetsInteraction pDataSet)) \<le>
        length (rmse_gradients_interaction SafeConvertFloat aTargets aBag aInitScores
                  (m_aSubsetsInteraction pDataSet)) \<and>
      length aBag \<le> length aTargets \<and>
      (case aInitScores of
         None \<Rightarrow> True
       | Some scores \<Rightarrow> length (filter (\<lambda>r. r \<noteq> 0) aBag) \<le> length scores) \<and>
      list_all (\<lambda>s. case m_aWeightsInteraction s of
                       None \<Rightarrow> True
                     | Some ws \<Rightarrow> length ws = length (m_aGradHessInteraction s))
        (m_aSubsetsInteraction pDataSet) \<and>
      list_all (\<lambda>pSubset.
                  m_aWeightsInteraction (m_aSubsetsInteraction pDataSet ! pSubset) \<noteq> None \<longrightarrow>
                  run_start aBag (subset_start (m_aSubsetsInteraction pDataSet) pSubset) =
                    subset_start (m_aSubsetsInteraction pDataSet) pSubset)
        [0 ..< length (m_aSubsetsInteraction pDataSet)])"

section \<open>Scenarios\<close>

text \<open>
  The scenarios are over the real numbers, where no value is a \<open>NaN\<close> or an infinity
  (but for scenario S4, which is also given over the \<open>double\<close> values);
  \<open>k_epsilonGradient\<close> is a small positive constant, and no bin size overflows. Every
  dataset has the weight total of its samples.
\<close>

definition real_floats :: "(real, real) Floats" where
  "real_floats = \<lparr>std_isnan = (\<lambda>x. False), std_isinf = (\<lambda>x. False),
     k_epsilonGradient = 1 / 10000000, FloatFast_quarter = 1 / 4,
     FloatBig_0_999 = (\<lambda>x. x * (999 / 1000)), FloatBig_1_001 = (\<lambda>x. 1001 / 1000 * x),
     FloatBig_size_t = real, IsOverflowBinSize_FloatFast = (\<lambda>bClassification cScores. False)\<rparr>"

text \<open>A bin with no samples: every sum is zero.\<close>

definition zero_bin :: "nat \<Rightarrow> ('f :: zero) Bin" where
  "zero_bin cScores = \<lparr>m_cSamples = 0, m_weight = 0,
     m_aGradientPairs = replicate cScores \<lparr>m_sumGradients = 0, m_sumHessians = 0\<rparr>\<rparr>"

text \<open>
  Scenario S3 of the spec: features A (2 bins) and B (3 bins), a sample with
  \<open>A = 1, B = 2\<close>, here with weight 2 and gradient 3, and a second sample in bin
  \<open>(0, 0)\<close> with weight 5 and gradient \<open>-1\<close>; a regression.
\<close>

definition S3_term :: Term where
  "S3_term = \<lparr>m_cDimensions = 2, m_cSignificantDimensions = 2,
     m_aTermEntries = [\<lparr>m_cBins = 2, m_iFeatureData = 0\<rparr>, \<lparr>m_cBins = 3, m_iFeatureData = 1\<rparr>]\<rparr>"

definition S3_shell :: "(real, real) InteractionShell" where
  "S3_shell = \<lparr>m_pInteractionCore = \<lparr>m_cClasses = k_regression,
       m_dataFrame = \<lparr>m_aGradientsAndHessians = [3, - 1], m_aWeights = Some [2, 5],
         m_cSamplesDataSet = 2, m_aaInputData = [[1, 0], [2, 0]], m_weightTotal = 7\<rparr>\<rparr>,
     m_aBinsFast = [zero_bin 1, zero_bin 1, zero_bin 1, zero_bin 1, zero_bin 1, zero_bin 1]\<rparr>"

text \<open>The same two samples without a weight array.\<close>

definition S3_unweighted_shell :: "(real, real) InteractionShell" where
  "S3_unweighted_shell = \<lparr>m_pInteractionCore = \<lparr>m_cClasses = k_regression,
       m_dataFrame = \<lparr>m_aGradientsAndHessians = [3, - 1], m_aWeights = None,
         m_cSamplesDataSet = 2, m_aaInputData = [[1, 0], [2, 0]], m_weightTotal = 2\<rparr>\<rparr>,
     m_aBinsFast = [zero_bin 1, zero_bin 1, zero_bin 1, zero_bin 1, zero_bin 1, zero_bin 1]\<rparr>"

text \<open>
  Scenario S1 of the spec: one feature with 3 bins, one sample at bin 1 with weight 1
  and gradient \<open>-3\<close>; a regression.
\<close>

definition S1_term :: Term where
  "S1_term = \<lparr>m_cDimensions = 1, m_cSignificantDimensions = 1,
     m_aTermEntries = [\<lparr>m_cBins = 3, m_iFeatureData = 0\<rparr>]\<rparr>"

definition S1_shell :: "(real, real) InteractionShell" where
  "S1_shell = \<lparr>m_pInteractionCore = \<lparr>m_cClasses = k_regression,
       m_dataFrame = \<lparr>m_aGradientsAndHessians = [- 3], m_aWeights = Some [1],
         m_cSamplesDataSet = 1, m_aaInputData = [[1]], m_weightTotal = 1\<rparr>\<rparr>,
     m_aBinsFast = [zero_bin 1, zero_bin 1, zero_bin 1]\<rparr>"

text \<open>
  Scenario S4 of the spec: a binary classification, one feature with 2 bins, one
  sample at bin 0 with gradient \<open>-0.5\<close> and Hessian \<open>0.25\<close>; without a weight array,
  and with the weight 4.
\<close>

definition S4_term :: Term where
  "S4_term = \<lparr>m_cDimensions = 1, m_cSignificantDimensions = 1,
     m_aTermEntries = [\<lparr>m_cBins = 2, m_iFeatureData = 0\<rparr>]\<rparr>"

definition S4_shell :: "(real, real) InteractionShell" where
  "S4_shell = \<lparr>m_pInteractionCore = \<lparr>m_cClasses = Classes 2,
       m_dataFrame = \<lparr>m_aGradientsAndHessians = [- 1 / 2, 1 / 4], m_aWeights = None,
         m_cSamplesDataSet = 1, m_aaInputData = [[0]], m_weightTotal = 1\<rparr>\<rparr>,
     m_aBinsFast = [zero_bin 1, zero_bin 1]\<rparr>"

definition S4_weighted_shell :: "(real, real) InteractionShell" where
  "S4_weighted_shell = \<lparr>m_pInteractionCore = \<lparr>m_cClasses = Classes 2,
       m_dataFrame = \<lparr>m_aGradientsAndHessians = [- 1 / 2, 1 / 4], m_aWeights = Some [4],
         m_cSamplesDataSet = 1, m_aaInputData = [[0]], m_weightTotal = 4\<rparr>\<rparr>,
     m_aBinsFast = [zero_bin 1, zero_bin 1]\<rparr>"

text \<open>
  A classification with three classes over the same two features: one sample in bin
  \<open>(1, 2)\<close> with weight 2, and for each of the three scores a gradient in \<open>[-1, 1]\<close>
  and a Hessian in \<open>[0, 0.25]\<close>.
\<close>

definition K3_shell :: "(real, real) InteractionShell" where
  "K3_shell = \<lparr>m_pInteractionCore = \<lparr>m_cClasses = Classes 3,
       m_dataFrame = \<lparr>m_aGradientsAndHessians = [1 / 2, 1 / 4, - 1 / 4, 1 / 8, 1, 1 / 16], m_aWeights = Some [2],
         m_cSamplesDataSet = 1, m_aaInputData = [[1], [2]], m_weightTotal = 2\<rparr>\<rparr>,
     m_aBinsFast = [zero_bin 3, zero_bin 3, zero_bin 3, zero_bin 3, zero_bin 3, zero_bin 3]\<rparr>"

text \<open>
  The three-class scenario with gradients and Hessians outside the ranges of a
  classification, and scenario S1 without its sample.
\<close>

definition K3_wide_shell :: "(real, real) InteractionShell" where
  "K3_wide_shell = \<lparr>m_pInteractionCore = \<lparr>m_cClasses = Classes 3,
       m_dataFrame = \<lparr>m_aGradientsAndHessians = [1, 2, 3, 4, 5, 6], m_aWeights = Some [2],
         m_cSamplesDataSet = 1, m_aaInputData = [[1], [2]], m_weightTotal = 2\<rparr>\<rparr>,
     m_aBinsFast = [zero_bin 3, zero_bin 3, zero_bin 3, zero_bin 3, zero_bin 3, zero_bin 3]\<rparr>"

definition S1_empty_shell :: "(real, real) InteractionShell" where
  "S1_empty_shell = \<lparr>m_pInteractionCore = \<lparr>m_cClasses = k_regression,
       m_dataFrame = \<lparr>m_aGradientsAndHessians = [], m_aWeights = None,
         m_cSamplesDataSet = 0, m_aaInputData = [[]], m_weightTotal = 0\<rparr>\<rparr>,
     m_aBinsFast = [zero_bin 1, zero_bin 1, zero_bin 1]\<rparr>"

text \<open>
  Scenario S4 over the \<open>double\<close> values, which have the infinities and \<open>NaN\<close>. The
  arithmetic gives the exact result of a sum or a product of finite values: the values
  of the scenarios are small dyadic fractions, whose sums and products are \<open>double\<close>
  values, so that rounding changes nothing. The comparisons are those of the \<open>double\<close>
  values, in which a \<open>NaN\<close> compares with nothing.
\<close>

instantiation double :: "{zero, one, plus, times, uminus, minus, ord}"
begin

definition zero_double :: double where
  "zero_double = Finite 0"

definition one_double :: double where
  "one_double = Finite 1"

definition plus_double :: "double \<Rightarrow> double \<Rightarrow> double" where
  "plus_double a b = fp_add Finite a b"

definition times_double :: "double \<Rightarrow> double \<Rightarrow> double" where
  "times_double a b = fp_mul Finite a b"

definition uminus_double :: "double \<Rightarrow> double" where
  "uminus_double a = fp_neg a"

definition minus_double :: "double \<Rightarrow> double \<Rightarrow> double" where
  "minus_double a b = fp_sub Finite a b"

definition less_eq_double :: "double \<Rightarrow> double \<Rightarrow> bool" where
  "less_eq_double a b = fp_le a b"

definition less_double :: "double \<Rightarrow> double \<Rightarrow> bool" where
  "less_double a b = fp_lt a b"

instance ..

end

definition double_floats :: "(double, double) Floats" where
  "double_floats = \<lparr>std_isnan = isnan, std_isinf = isinf,
     k_epsilonGradient = Finite (1 / 10000000), FloatFast_quarter = Finite (1 / 4),
     FloatBig_0_999 = (\<lambda>x. x * Finite (999 / 1000)), FloatBig_1_001 = (\<lambda>x. Finite (1001 / 1000) * x),
     FloatBig_size_t = (\<lambda>n. Finite (real n)), IsOverflowBinSize_FloatFast = (\<lambda>bClassification cScores. False)\<rparr>"

text \<open>
  Scenario S4 with the weight 4, and with an infinite weight and a Hessian of 0 (the
  weight total of the dataset is then infinite).
\<close>

definition S4_double_shell :: "(double, double) InteractionShell" where
  "S4_double_shell = \<lparr>m_pInteractionCore = \<lparr>m_cClasses = Classes 2,
       m_dataFrame = \<lparr>m_aGradientsAndHessians = [Finite (- 1 / 2), Finite (1 / 4)], m_aWeights = Some [Finite 4],
         m_cSamplesDataSet = 1, m_aaInputData = [[0]], m_weightTotal = Finite 4\<rparr>\<rparr>,
     m_aBinsFast = [zero_bin 1, zero_bin 1]\<rparr>"

definition S4_infinite_shell :: "(double, double) InteractionShell" where
  "S4_infinite_shell = \<lparr>m_pInteractionCore = \<lparr>m_cClasses = Classes 2,
       m_dataFrame = \<lparr>m_aGradientsAndHessians = [Finite (- 1 / 2), Finite 0], m_aWeights = Some [PosInf],
         m_cSamplesDataSet = 1, m_aaInputData = [[0]], m_weightTotal = PosInf\<rparr>\<rparr>,
     m_aBinsFast = [zero_bin 1, zero_bin 1]\<rparr>"

text \<open>A shell and a term that only carry a class count and a dimension count.\<close>

definition classes_shell :: "classes \<Rightarrow> (real, real) InteractionShell" where
  "classes_shell cRuntimeClasses = \<lparr>m_pInteractionCore = \<lparr>m_cClasses = cRuntimeClasses,
       m_dataFrame = \<lparr>m_aGradientsAndHessians = [], m_aWeights = None,
         m_cSamplesDataSet = 0, m_aaInputData = [], m_weightTotal = 0\<rparr>\<rparr>,
     m_aBinsFast = []\<rparr>"

definition dimensions_term :: "nat \<Rightarrow> Term" where
  "dimensions_term cDimensions = \<lparr>m_cDimensions = cDimensions,
     m_cSignificantDimensions = cDimensions, m_aTermEntries = []\<rparr>"

definition ladder_constants :: Constants where
  "ladder_constants = \<lparr>k_cCompilerClassesMax = 8, k_cCompilerOptimizedCountDimensionsMax = 3,
     k_cDimensionsMax = 30\<rparr>"

text \<open>
  The bag of the spec's property 8, \<open>[+1, -2, 0, +3, -1]\<close>, over five targets; the
  training set has two subsets of two gradients each, the validation set one subset of
  three.
\<close>

definition S8_targets :: "int list" where
  "S8_targets = [10, 20, 30, 40, 50]"

definition S8_bag :: "int list" where
  "S8_bag = [1, - 2, 0, 3, - 1]"

definition S8_training :: "int DataSetBoosting" where
  "S8_training = \<lparr>m_cSamplesBoosting = 4,
     m_aSubsetsBoosting = [\<lparr>m_aGradHessBoosting = [0, 0]\<rparr>, \<lparr>m_aGradHessBoosting = [0, 0]\<rparr>]\<rparr>"

definition S8_validation :: "int DataSetBoosting" where
  "S8_validation = \<lparr>m_cSamplesBoosting = 3,
     m_aSubsetsBoosting = [\<lparr>m_aGradHessBoosting = [0, 0, 0]\<rparr>]\<rparr>"

text \<open>
  Interaction detection. Scenario S9: four targets and the bag \<open>[+2, -1, 0, +2]\<close>; two
  subsets of two gradients each, with the weights 2 and 5 of the two samples that are
  written, or without weights. The last dataset has one subset of one gradient.
\<close>

definition S9_targets :: "int list" where
  "S9_targets = [10, 20, 30, 40]"

definition S9_bag :: "int list" where
  "S9_bag = [2, - 1, 0, 2]"

definition S9_weighted :: "int DataSetInteractionSubsets" where
  "S9_weighted = \<lparr>m_cSamplesInteraction = 4,
     m_aSubsetsInteraction =
       [\<lparr>m_aGradHessInteraction = [0, 0], m_aWeightsInteraction = Some [2, 2]\<rparr>,
        \<lparr>m_aGradHessInteraction = [0, 0], m_aWeightsInteraction = Some [5, 5]\<rparr>]\<rparr>"

definition S9_unweighted :: "int DataSetInteractionSubsets" where
  "S9_unweighted = \<lparr>m_cSamplesInteraction = 4,
     m_aSubsetsInteraction =
       [\<lparr>m_aGradHessInteraction = [0, 0], m_aWeightsInteraction = None\<rparr>,
        \<lparr>m_aGradHessInteraction = [0, 0], m_aWeightsInteraction = None\<rparr>]\<rparr>"

definition S9_negative :: "int DataSetInteractionSubsets" where
  "S9_negative = \<lparr>m_cSamplesInteraction = 1,
     m_aSubsetsInteraction = [\<lparr>m_aGradHessInteraction = [0], m_aWeightsInteraction = None\<rparr>]\<rparr>"

section \<open>The kernel computes the aggregation of the spec\<close>

lemma tensor_index_less:
  "length bs = length cs \<Longrightarrow> list_all2 (<) bs cs \<Longrightarrow> tensor_index bs cs < prod_list cs"
proof (induction bs cs rule: list_induct2)
  case Nil
  then show ?case by simp
next
  case (Cons b bs c cs)
  then have t: "tensor_index bs cs < prod_list cs" and b: "b < c" by simp_all
  from t have "Suc (tensor_index bs cs) \<le> prod_list cs" by simp
  then have "c * Suc (tensor_index bs cs) \<le> c * prod_list cs" by (rule mult_le_mono2)
  with b show ?case by simp
qed

lemma dimensions_loop:
  fixes pDataSet :: "('f, 'b) DataSetInteraction"
  assumes "list_all (\<lambda>f. 2 \<le> m_cBins f \<and> m_iFeatureData f < length (m_aaInputData pDataSet) \<and>
              s < length (m_aaInputData pDataSet ! m_iFeatureData f) \<and>
              m_aaInputData pDataSet ! m_iFeatureData f ! s < m_cBins f) (m_aTermEntries pTerm)"
    and "iDimension < length (m_aTermEntries pTerm)"
  shows "BinSumsInteractionInternal_dimensions dbg pTerm pDataSet (length (m_aTermEntries pTerm)) s
           cTensorBins iTensorBin iDimension =
         Inr (iTensorBin + cTensorBins *
               of_nat (tensor_index (drop iDimension (sample_bins pTerm pDataSet s))
                        (drop iDimension (term_bins pTerm))))"
  using assms(2)
proof (induction "length (m_aTermEntries pTerm) - iDimension" arbitrary: iDimension cTensorBins iTensorBin)
  case 0
  then show ?case by simp
next
  case (Suc n)
  let ?es = "m_aTermEntries pTerm"
  let ?f = "?es ! iDimension"
  let ?col = "m_aaInputData pDataSet ! m_iFeatureData ?f"
  have mem: "?f \<in> set ?es" using Suc.prems by simp
  with assms(1) have ok: "2 \<le> m_cBins ?f" "m_iFeatureData ?f < length (m_aaInputData pDataSet)"
    "s < length ?col" "?col ! s < m_cBins ?f"
    by (auto simp: list_all_iff)
  have dl: "drop iDimension (sample_bins pTerm pDataSet s) =
      unat (?col ! s) # drop (Suc iDimension) (sample_bins pTerm pDataSet s)"
    using Suc.prems by (simp add: sample_bins_def Cons_nth_drop_Suc [symmetric])
  have dc: "drop iDimension (term_bins pTerm) = unat (m_cBins ?f) # drop (Suc iDimension) (term_bins pTerm)"
    using Suc.prems by (simp add: term_bins_def Cons_nth_drop_Suc [symmetric])
  show ?case
  proof (cases "iDimension + 1 < length ?es")
    case True
    have n: "n = length ?es - (iDimension + 1)" using Suc.hyps(2) by simp
    have "BinSumsInteractionInternal_dimensions dbg pTerm pDataSet (length ?es) s cTensorBins iTensorBin iDimension
        = BinSumsInteractionInternal_dimensions dbg pTerm pDataSet (length ?es) s
            (cTensorBins * m_cBins ?f) (iTensorBin + cTensorBins * (?col ! s)) (iDimension + 1)"
      using ok Suc.prems True
      by (subst BinSumsInteractionInternal_dimensions.simps) (simp add: Let_def)
    also have "\<dots> = Inr ((iTensorBin + cTensorBins * (?col ! s)) + (cTensorBins * m_cBins ?f) *
               of_nat (tensor_index (drop (iDimension + 1) (sample_bins pTerm pDataSet s))
                        (drop (iDimension + 1) (term_bins pTerm))))"
      by (rule Suc.hyps(1) [OF n True])
    finally show ?thesis
      by (simp add: dl dc algebra_simps)
  next
    case False
    then have last: "drop (Suc iDimension) (sample_bins pTerm pDataSet s) = []"
      by (simp add: sample_bins_def)
    have "BinSumsInteractionInternal_dimensions dbg pTerm pDataSet (length ?es) s cTensorBins iTensorBin iDimension
        = Inr (iTensorBin + cTensorBins * (?col ! s))"
      using ok Suc.prems False
      by (subst BinSumsInteractionInternal_dimensions.simps) (simp add: Let_def)
    then show ?thesis
      by (simp add: dl dc last)
  qed
qed

text \<open>One turn of the loop over the scores, of a classification and of a regression.\<close>

lemma scores_step_classification:
  fixes aGH :: "('f :: {one, plus, times, uminus, minus, ord}) list"
  assumes "iScore < cScores" and "p + 1 < length aGH" and "iScore < length pairs"
  shows "BinSumsInteractionInternal_scores env dbg True aGH weight cScores iScore p pairs =
         (if dbg \<and> \<not> (gradient_assert env (aGH ! p) \<and> hessian_assert env (aGH ! (p + 1)) \<and>
                        hessian_sum_assert env (m_sumHessians (pairs ! iScore)) \<and>
                        hessian_sum_assert env (m_sumHessians (pairs ! iScore) + aGH ! (p + 1) * weight))
          then Inl AssertionFailed
          else BinSumsInteractionInternal_scores env dbg True aGH weight cScores (iScore + 1) (p + 2)
                 (pairs[iScore := \<lparr>m_sumGradients = m_sumGradients (pairs ! iScore) + aGH ! p * weight,
                                    m_sumHessians = m_sumHessians (pairs ! iScore) + aGH ! (p + 1) * weight\<rparr>]))"
proof -
  have u: "(pairs ! iScore)\<lparr>m_sumGradients := g, m_sumHessians := h\<rparr> =
      \<lparr>m_sumGradients = g, m_sumHessians = h\<rparr>" for g h
    by (cases "pairs ! iScore") simp
  show ?thesis
    using assms unfolding gradient_assert_def hessian_assert_def hessian_sum_assert_def
    by (subst BinSumsInteractionInternal_scores.simps) (auto simp: Let_def u)
qed

lemma scores_step_regression:
  fixes aGH :: "('f :: {one, plus, times, uminus, minus, ord}) list"
  assumes "iScore < cScores" and "p < length aGH" and "iScore < length pairs"
  shows "BinSumsInteractionInternal_scores env dbg False aGH weight cScores iScore p pairs =
         BinSumsInteractionInternal_scores env dbg False aGH weight cScores (iScore + 1) (p + 1)
           (pairs[iScore := \<lparr>m_sumGradients = m_sumGradients (pairs ! iScore) + aGH ! p * weight,
                              m_sumHessians = m_sumHessians (pairs ! iScore)\<rparr>])"
proof -
  have u: "(pairs ! iScore)\<lparr>m_sumGradients := g\<rparr> =
      \<lparr>m_sumGradients = g, m_sumHessians = m_sumHessians (pairs ! iScore)\<rparr>" for g
    by (cases "pairs ! iScore") simp
  show ?thesis
    using assms
    by (subst BinSumsInteractionInternal_scores.simps) (simp add: Let_def u)
qed

lemma scores_loop:
  fixes aGH :: "('f :: {one, plus, times, uminus, minus, ord}) list"
  assumes "iScore \<le> cScores" and "length pairs = cScores"
    and "p0 + (if bClassification then 2 else 1) * cScores \<le> length aGH"
    and "dbg \<and> bClassification \<longrightarrow>
           (\<forall>k. iScore \<le> k \<and> k < cScores \<longrightarrow>
              gradient_assert env (aGH ! (p0 + 2 * k)) \<and>
              hessian_assert env (aGH ! (p0 + 2 * k + 1)) \<and>
              hessian_sum_assert env (m_sumHessians (pairs ! k)) \<and>
              hessian_sum_assert env (m_sumHessians (pairs ! k) + aGH ! (p0 + 2 * k + 1) * weight))"
  shows "BinSumsInteractionInternal_scores env dbg bClassification aGH weight cScores iScore
           (p0 + (if bClassification then 2 else 1) * iScore) pairs =
         Inr (map (\<lambda>k. if iScore \<le> k then
                          \<lparr>m_sumGradients = m_sumGradients (pairs ! k) +
                              aGH ! (p0 + (if bClassification then 2 else 1) * k) * weight,
                           m_sumHessians =
                             (if bClassification
                              then m_sumHessians (pairs ! k) + aGH ! (p0 + 2 * k + 1) * weight
                              else m_sumHessians (pairs ! k))\<rparr>
                        else pairs ! k) [0..<cScores],
              p0 + (if bClassification then 2 else 1) * cScores)"
  using assms(1,2,4)
proof (induction "cScores - iScore" arbitrary: iScore pairs)
  case 0
  then have e: "iScore = cScores" by simp
  have "map (\<lambda>k. pairs ! k) [0..<cScores] = pairs"
    using "0.prems"(2) map_nth [of pairs] by simp
  moreover have "map (\<lambda>k. if cScores \<le> k then
                          \<lparr>m_sumGradients = m_sumGradients (pairs ! k) +
                              aGH ! (p0 + (if bClassification then 2 else 1) * k) * weight,
                           m_sumHessians =
                             (if bClassification
                              then m_sumHessians (pairs ! k) + aGH ! (p0 + 2 * k + 1) * weight
                              else m_sumHessians (pairs ! k))\<rparr>
                        else pairs ! k) [0..<cScores] = map (\<lambda>k. pairs ! k) [0..<cScores]"
    by (rule map_cong) auto
  ultimately show ?case
    by (subst BinSumsInteractionInternal_scores.simps) (simp add: e)
next
  case (Suc n)
  then have lt: "iScore < cScores" by simp
  let ?st = "if bClassification then 2 else 1 :: nat"
  let ?upd = "\<lambda>pairs k. \<lparr>m_sumGradients = m_sumGradients (pairs ! k) +
                              aGH ! (p0 + ?st * k) * weight,
                           m_sumHessians =
                             (if bClassification
                              then m_sumHessians (pairs ! k) + aGH ! (p0 + 2 * k + 1) * weight
                              else m_sumHessians (pairs ! k))\<rparr>"
  let ?pairs1 = "pairs[iScore := ?upd pairs iScore]"
  have n: "n = cScores - (iScore + 1)" using Suc.hyps(2) by simp
  have b1: "p0 + ?st * iScore < length aGH"
  proof -
    have "?st * iScore < ?st * cScores" using lt by simp
    with assms(3) show ?thesis by linarith
  qed
  have b2: "bClassification \<Longrightarrow> p0 + 2 * iScore + 1 < length aGH"
    using assms(3) lt by (auto split: if_splits)
  have step: "BinSumsInteractionInternal_scores env dbg bClassification aGH weight cScores iScore
           (p0 + ?st * iScore) pairs =
        BinSumsInteractionInternal_scores env dbg bClassification aGH weight cScores (iScore + 1)
           (p0 + ?st * (iScore + 1)) ?pairs1"
  proof (cases bClassification)
    case True
    have as: "dbg \<longrightarrow>
        gradient_assert env (aGH ! (p0 + 2 * iScore)) \<and>
        hessian_assert env (aGH ! (p0 + 2 * iScore + 1)) \<and>
        hessian_sum_assert env (m_sumHessians (pairs ! iScore)) \<and>
        hessian_sum_assert env (m_sumHessians (pairs ! iScore) + aGH ! (p0 + 2 * iScore + 1) * weight)"
      using Suc.prems(3) True lt by simp
    have il: "iScore < length pairs" using lt Suc.prems(2) by simp
    have "BinSumsInteractionInternal_scores env dbg True aGH weight cScores iScore (p0 + 2 * iScore) pairs =
        BinSumsInteractionInternal_scores env dbg True aGH weight cScores (iScore + 1) (p0 + 2 * iScore + 2)
          (pairs[iScore := \<lparr>m_sumGradients = m_sumGradients (pairs ! iScore) + aGH ! (p0 + 2 * iScore) * weight,
             m_sumHessians = m_sumHessians (pairs ! iScore) + aGH ! (p0 + 2 * iScore + 1) * weight\<rparr>])"
      using as by (subst scores_step_classification [OF lt b2 [OF True] il]) auto
    then show ?thesis using True by simp
  next
    case False
    have il: "iScore < length pairs" using lt Suc.prems(2) by simp
    have b1': "p0 + iScore < length aGH" using b1 False by simp
    have "BinSumsInteractionInternal_scores env dbg False aGH weight cScores iScore (p0 + iScore) pairs =
        BinSumsInteractionInternal_scores env dbg False aGH weight cScores (iScore + 1) (p0 + iScore + 1)
          (pairs[iScore := \<lparr>m_sumGradients = m_sumGradients (pairs ! iScore) + aGH ! (p0 + iScore) * weight,
             m_sumHessians = m_sumHessians (pairs ! iScore)\<rparr>])"
      by (rule scores_step_regression [OF lt b1' il])
    then show ?thesis using False by simp
  qed
  have len1: "length ?pairs1 = cScores" using Suc.prems(2) by simp
  have le1: "iScore + 1 \<le> cScores" using lt by simp
  have as1: "dbg \<and> bClassification \<longrightarrow>
           (\<forall>k. iScore + 1 \<le> k \<and> k < cScores \<longrightarrow>
              gradient_assert env (aGH ! (p0 + 2 * k)) \<and>
              hessian_assert env (aGH ! (p0 + 2 * k + 1)) \<and>
              hessian_sum_assert env (m_sumHessians (?pairs1 ! k)) \<and>
              hessian_sum_assert env (m_sumHessians (?pairs1 ! k) + aGH ! (p0 + 2 * k + 1) * weight))"
    using Suc.prems(3) by auto
  have eq: "map (\<lambda>k. if iScore + 1 \<le> k then ?upd ?pairs1 k else ?pairs1 ! k) [0..<cScores] =
            map (\<lambda>k. if iScore \<le> k then ?upd pairs k else pairs ! k) [0..<cScores]"
  proof (rule map_cong [OF refl])
    fix k assume "k \<in> set [0..<cScores]"
    then have k: "k < length pairs" using Suc.prems(2) by simp
    show "(if iScore + 1 \<le> k then ?upd ?pairs1 k else ?pairs1 ! k) =
          (if iScore \<le> k then ?upd pairs k else pairs ! k)"
      using k lt Suc.prems(2) by (cases "k = iScore") (auto simp: nth_list_update)
  qed
  show ?case
    unfolding step Suc.hyps(1) [OF n le1 len1 as1] eq ..
qed

lemma sample_index_less:
  assumes "list_all (feature_ok pDataSet) (m_aTermEntries pTerm)" and "s < m_cSamplesDataSet pDataSet"
  shows "sample_index pTerm pDataSet s < prod_list (term_bins pTerm)"
proof -
  have "list_all2 (<) (sample_bins pTerm pDataSet s) (term_bins pTerm)"
    using assms
    by (auto simp: sample_bins_def term_bins_def list_all2_map1 list_all2_map2 list_all_iff
        feature_ok_def word_less_nat_alt intro!: list_all2_same [THEN iffD2])
  then show ?thesis
    unfolding sample_index_def
    by (intro tensor_index_less) (auto dest: list_all2_lengthD)
qed

lemma Bin_update_all:
  "(bin :: 'f Bin)\<lparr>m_cSamples := c, m_weight := w, m_aGradientPairs := p\<rparr> =
   \<lparr>m_cSamples = c, m_weight = w, m_aGradientPairs = p\<rparr>"
  by (cases bin) simp

lemma sample_step:
  fixes pDataSet :: "('f :: {one, plus, times, uminus, minus, ord}, 'b) DataSetInteraction"
  assumes feat: "list_all (feature_ok pDataSet) (m_aTermEntries pTerm)"
    and ne: "m_aTermEntries pTerm \<noteq> []"
    and s: "s < m_cSamplesDataSet pDataSet"
    and len: "length aBins = prod_list (term_bins pTerm)" "length aBins < 2 ^ 64"
    and pairs: "list_all (\<lambda>bin. length (m_aGradientPairs bin) = cScores) aBins"
    and gh: "length (m_aGradientsAndHessians pDataSet) =
           (if bClassification then 2 else 1) * cScores * m_cSamplesDataSet pDataSet"
    and w: "case m_aWeights pDataSet of None \<Rightarrow> True
              | Some aWeights \<Rightarrow> length aWeights = m_cSamplesDataSet pDataSet \<and> pWeight = s"
    and as: "dbg \<and> bClassification \<longrightarrow> sample_asserts env cScores pTerm pDataSet aBins s"
  shows "BinSumsInteractionInternal_sample env dbg bClassification cScores (length (m_aTermEntries pTerm))
           pTerm pDataSet s ((if bClassification then 2 else 1) * cScores * s) pWeight weightTotalDebug aBins =
         Inr (binSums_sample bClassification cScores pTerm pDataSet aBins s,
              (if bClassification then 2 else 1) * cScores * (s + 1),
              (case m_aWeights pDataSet of None \<Rightarrow> pWeight | Some aWeights \<Rightarrow> s + 1),
              (case m_aWeights pDataSet of
                 None \<Rightarrow> weightTotalDebug
               | Some aWeights \<Rightarrow> if dbg then weightTotalDebug + aWeights ! s else weightTotalDebug))"
proof -
  let ?st = "if bClassification then 2 else 1 :: nat"
  let ?i = "sample_index pTerm pDataSet s"
  have feat': "list_all (\<lambda>f. 2 \<le> m_cBins f \<and> m_iFeatureData f < length (m_aaInputData pDataSet) \<and>
              s < length (m_aaInputData pDataSet ! m_iFeatureData f) \<and>
              m_aaInputData pDataSet ! m_iFeatureData f ! s < m_cBins f) (m_aTermEntries pTerm)"
    using feat s by (auto simp: list_all_iff feature_ok_def)
  have dims: "BinSumsInteractionInternal_dimensions dbg pTerm pDataSet (length (m_aTermEntries pTerm)) s 1 0 0
      = Inr (of_nat ?i)"
    using dimensions_loop [OF feat', of 0 dbg 1 0] ne by (simp add: sample_index_def)
  have il: "?i < length aBins" using sample_index_less [OF feat s] len by simp
  then have u: "unat (of_nat ?i :: size_t) = ?i"
    using len(2) by (simp add: unat_of_nat)
  let ?bin = "aBins ! ?i"
  have pl: "length (m_aGradientPairs ?bin) = cScores"
    using pairs il by (auto simp: list_all_iff)
  have bound: "?st * cScores * s + ?st * cScores \<le> length (m_aGradientsAndHessians pDataSet)"
  proof -
    have "?st * cScores * (s + 1) \<le> ?st * cScores * m_cSamplesDataSet pDataSet"
      using s by (intro mult_le_mono2) simp
    then show ?thesis using gh by (simp add: algebra_simps)
  qed
  have ix: "2 * cScores * s + 2 * k = 2 * (cScores * s + k)"
    "2 * cScores * s + 2 * k + 1 = 2 * (cScores * s + k) + 1" for k
    by (simp_all add: algebra_simps)
  have as': "dbg \<and> bClassification \<longrightarrow>
      (\<forall>k. 0 \<le> k \<and> k < cScores \<longrightarrow>
         gradient_assert env (m_aGradientsAndHessians pDataSet ! (?st * cScores * s + 2 * k)) \<and>
         hessian_assert env (m_aGradientsAndHessians pDataSet ! (?st * cScores * s + 2 * k + 1)) \<and>
         hessian_sum_assert env (m_sumHessians (m_aGradientPairs ?bin ! k)) \<and>
         hessian_sum_assert env (m_sumHessians (m_aGradientPairs ?bin ! k) +
           m_aGradientsAndHessians pDataSet ! (?st * cScores * s + 2 * k + 1) * sample_weight pDataSet s))"
  proof (intro impI allI, elim conjE)
    fix k assume d: dbg and c: bClassification and k: "k < cScores"
    from as d c have "sample_asserts env cScores pTerm pDataSet aBins s" by simp
    with k have "gradient_assert env (sample_gradient True cScores pDataSet s k) \<and>
        hessian_assert env (sample_hessian cScores pDataSet s k) \<and>
        hessian_sum_assert env (m_sumHessians (m_aGradientPairs ?bin ! k)) \<and>
        hessian_sum_assert env (m_sumHessians (m_aGradientPairs ?bin ! k) +
          sample_hessian cScores pDataSet s k * sample_weight pDataSet s)"
      by (simp add: sample_asserts_def list_all_iff)
    then show "gradient_assert env (m_aGradientsAndHessians pDataSet ! (?st * cScores * s + 2 * k)) \<and>
         hessian_assert env (m_aGradientsAndHessians pDataSet ! (?st * cScores * s + 2 * k + 1)) \<and>
         hessian_sum_assert env (m_sumHessians (m_aGradientPairs ?bin ! k)) \<and>
         hessian_sum_assert env (m_sumHessians (m_aGradientPairs ?bin ! k) +
           m_aGradientsAndHessians pDataSet ! (?st * cScores * s + 2 * k + 1) * sample_weight pDataSet s)"
      using c unfolding sample_gradient_def sample_hessian_def by (simp add: ix)
  qed
  have sc: "BinSumsInteractionInternal_scores env dbg bClassification (m_aGradientsAndHessians pDataSet)
        weight cScores 0 (?st * cScores * s) (m_aGradientPairs ?bin) =
      Inr (map (\<lambda>k. \<lparr>m_sumGradients = m_sumGradients (m_aGradientPairs ?bin ! k) +
                          sample_gradient bClassification cScores pDataSet s k * weight,
                       m_sumHessians =
                         (if bClassification
                          then m_sumHessians (m_aGradientPairs ?bin ! k) +
                                 sample_hessian cScores pDataSet s k * weight
                          else m_sumHessians (m_aGradientPairs ?bin ! k))\<rparr>) [0..<cScores],
           ?st * cScores * (s + 1))" if weight: "weight = sample_weight pDataSet s" for weight
  proof -
    have c: "?st * cScores * s + ?st * cScores = ?st * cScores * (s + 1)"
      by (simp add: algebra_simps)
    show ?thesis
      using scores_loop [where iScore = 0 and cScores = cScores and pairs = "m_aGradientPairs ?bin"
          and ?p0.0 = "?st * cScores * s" and bClassification = bClassification and dbg = dbg and env = env
          and aGH = "m_aGradientsAndHessians pDataSet" and weight = weight] pl bound as' [folded weight]
      unfolding sample_gradient_def sample_hessian_def
      by (cases bClassification) (simp_all add: algebra_simps)
  qed
  show ?thesis
  proof (cases "m_aWeights pDataSet")
    case None
    have "(1 :: 'f) = sample_weight pDataSet s" by (simp add: sample_weight_def None)
    note sc1 = sc [OF this]
    show ?thesis
      using il None
      by (simp add: BinSumsInteractionInternal_sample_def dims u sc1 Let_def binSums_sample_def
          bin_add_sample_def sample_weight_def Bin_update_all)
  next
    case (Some aWeights)
    then have sl: "s < length aWeights" "pWeight = s" using w s by simp_all
    have "aWeights ! s = sample_weight pDataSet s" by (simp add: sample_weight_def Some)
    note sc1 = sc [OF this]
    show ?thesis
      using il Some sl
      by (simp add: BinSumsInteractionInternal_sample_def dims u sc1 Let_def binSums_sample_def
          bin_add_sample_def sample_weight_def Bin_update_all)
  qed
qed

lemma binSums_sample_length [simp]:
  "length (binSums_sample bClassification cScores pTerm pDataSet aBins s) = length aBins"
  by (simp add: binSums_sample_def)

lemma binSums_sample_pairs:
  assumes "list_all (\<lambda>bin. length (m_aGradientPairs bin) = cScores) aBins"
  shows "list_all (\<lambda>bin. length (m_aGradientPairs bin) = cScores)
           (binSums_sample bClassification cScores pTerm pDataSet aBins s)"
proof -
  have "length (m_aGradientPairs (bin_add_sample bClassification cScores pDataSet s b)) = cScores" for b
    by (simp add: bin_add_sample_def Let_def)
  with assms show ?thesis
    unfolding binSums_sample_def list_all_iff
    by (auto dest!: set_update_subset_insert [THEN subsetD])
qed

lemma samples_loop:
  fixes pDataSet :: "('f :: {one, plus, times, uminus, minus, ord}, 'b) DataSetInteraction"
  assumes feat: "list_all (feature_ok pDataSet) (m_aTermEntries pTerm)"
    and ne: "m_aTermEntries pTerm \<noteq> []"
    and gh: "length (m_aGradientsAndHessians pDataSet) =
           (if bClassification then 2 else 1) * GetCountScores cClasses * m_cSamplesDataSet pDataSet"
    and i: "iSample \<le> m_cSamplesDataSet pDataSet"
    and len: "length aBins = prod_list (term_bins pTerm)" "length aBins < 2 ^ 64"
    and pairs: "list_all (\<lambda>bin. length (m_aGradientPairs bin) = GetCountScores cClasses) aBins"
    and w: "case m_aWeights pDataSet of None \<Rightarrow> True
              | Some aWeights \<Rightarrow> length aWeights = m_cSamplesDataSet pDataSet \<and> pWeight = iSample"
    and as: "dbg \<and> bClassification \<longrightarrow>
               (\<forall>s. iSample \<le> s \<and> s < m_cSamplesDataSet pDataSet \<longrightarrow>
                  sample_asserts env (GetCountScores cClasses) pTerm pDataSet
                    (foldl (binSums_sample bClassification (GetCountScores cClasses) pTerm pDataSet) aBins
                       [iSample..<s]) s)"
  shows "BinSumsInteractionInternal_samples env dbg bClassification cClasses (length (m_aTermEntries pTerm))
           pTerm pDataSet
           ((if bClassification then 2 else 1) * GetCountScores cClasses * m_cSamplesDataSet pDataSet)
           iSample ((if bClassification then 2 else 1) * GetCountScores cClasses * iSample) pWeight
           weightTotalDebug aBins =
         Inr (foldl (binSums_sample bClassification (GetCountScores cClasses) pTerm pDataSet) aBins
                [iSample..<m_cSamplesDataSet pDataSet],
              (case m_aWeights pDataSet of
                 None \<Rightarrow> weightTotalDebug
               | Some aWeights \<Rightarrow>
                   if dbg then foldl (+) weightTotalDebug (drop iSample aWeights) else weightTotalDebug))"
  using i len pairs w as
proof (induction "m_cSamplesDataSet pDataSet - iSample" arbitrary: iSample aBins pWeight weightTotalDebug)
  case 0
  then have e: "iSample = m_cSamplesDataSet pDataSet" by simp
  have "drop iSample aWeights = []" if "m_aWeights pDataSet = Some aWeights" for aWeights
    using "0.prems"(5) that e by simp
  then show ?case
    by (subst BinSumsInteractionInternal_samples.simps) (simp add: e split: option.splits)
next
  case (Suc n)
  let ?st = "if bClassification then 2 else 1 :: nat"
  let ?c = "GetCountScores cClasses"
  let ?n = "m_cSamplesDataSet pDataSet"
  let ?f = "binSums_sample bClassification ?c pTerm pDataSet"
  from Suc.hyps(2) have lt: "iSample < ?n" by simp
  have pos: "0 < ?st * ?c" using GetCountScores_pos [of cClasses] by simp
  have neq: "?st * ?c * ?n \<noteq> ?st * ?c * iSample"
    using lt pos by simp
  let ?bins1 = "?f aBins iSample"
  let ?w1 = "case m_aWeights pDataSet of None \<Rightarrow> pWeight | Some aWeights \<Rightarrow> iSample + 1"
  let ?t1 = "case m_aWeights pDataSet of
               None \<Rightarrow> weightTotalDebug
             | Some aWeights \<Rightarrow> if dbg then weightTotalDebug + aWeights ! iSample else weightTotalDebug"
  have as0: "dbg \<and> bClassification \<longrightarrow> sample_asserts env ?c pTerm pDataSet aBins iSample"
    using Suc.prems(6) lt by (auto dest: spec [of _ iSample])
  have step: "BinSumsInteractionInternal_sample env dbg bClassification ?c (length (m_aTermEntries pTerm))
           pTerm pDataSet iSample (?st * ?c * iSample) pWeight weightTotalDebug aBins =
         Inr (?bins1, ?st * ?c * (iSample + 1), ?w1, ?t1)"
    by (rule sample_step [OF feat ne lt Suc.prems(2,3,4) gh Suc.prems(5) as0])
  have n: "n = ?n - (iSample + 1)" using Suc.hyps(2) by simp
  have w1: "case m_aWeights pDataSet of None \<Rightarrow> True
              | Some aWeights \<Rightarrow> length aWeights = ?n \<and> ?w1 = iSample + 1"
    using Suc.prems(5) by (auto split: option.splits)
  have as1: "dbg \<and> bClassification \<longrightarrow>
      (\<forall>s. iSample + 1 \<le> s \<and> s < ?n \<longrightarrow>
         sample_asserts env ?c pTerm pDataSet (foldl ?f ?bins1 [iSample + 1..<s]) s)"
  proof (intro impI allI, elim conjE)
    fix s assume d: dbg and c: bClassification and s: "iSample + 1 \<le> s" "s < ?n"
    have "[iSample..<s] = iSample # [iSample + 1..<s]" using s by (simp add: upt_conv_Cons)
    then have "foldl ?f aBins [iSample..<s] = foldl ?f ?bins1 [iSample + 1..<s]" by simp
    moreover have "sample_asserts env ?c pTerm pDataSet (foldl ?f aBins [iSample..<s]) s"
      using Suc.prems(6) d c s by simp
    ultimately show "sample_asserts env ?c pTerm pDataSet (foldl ?f ?bins1 [iSample + 1..<s]) s"
      by simp
  qed
  have l1: "iSample + 1 \<le> ?n" using lt by simp
  have len1: "length ?bins1 = prod_list (term_bins pTerm)" "length ?bins1 < 2 ^ 64"
    using Suc.prems(2,3) by simp_all
  have rec: "BinSumsInteractionInternal_samples env dbg bClassification cClasses (length (m_aTermEntries pTerm))
           pTerm pDataSet (?st * ?c * ?n) (iSample + 1) (?st * ?c * (iSample + 1)) ?w1 ?t1 ?bins1 =
         Inr (foldl ?f ?bins1 [iSample + 1..<?n],
              (case m_aWeights pDataSet of
                 None \<Rightarrow> ?t1
               | Some aWeights \<Rightarrow> if dbg then foldl (+) ?t1 (drop (iSample + 1) aWeights) else ?t1))"
    by (rule Suc.hyps(1) [OF n l1 len1 binSums_sample_pairs [OF Suc.prems(4)] w1 as1])
  have t: "(case m_aWeights pDataSet of
              None \<Rightarrow> ?t1
            | Some aWeights \<Rightarrow> if dbg then foldl (+) ?t1 (drop (iSample + 1) aWeights) else ?t1) =
           (case m_aWeights pDataSet of
              None \<Rightarrow> weightTotalDebug
            | Some aWeights \<Rightarrow>
                if dbg then foldl (+) weightTotalDebug (drop iSample aWeights) else weightTotalDebug)"
  proof (cases "m_aWeights pDataSet")
    case None
    then show ?thesis by simp
  next
    case (Some aWeights)
    then have "iSample < length aWeights" using Suc.prems(5) lt by simp
    then have "drop iSample aWeights = aWeights ! iSample # drop (iSample + 1) aWeights"
      by (simp add: Cons_nth_drop_Suc)
    then show ?thesis using Some by simp
  qed
  have "BinSumsInteractionInternal_samples env dbg bClassification cClasses (length (m_aTermEntries pTerm))
           pTerm pDataSet (?st * ?c * ?n) iSample (?st * ?c * iSample) pWeight weightTotalDebug aBins =
        BinSumsInteractionInternal_samples env dbg bClassification cClasses (length (m_aTermEntries pTerm))
           pTerm pDataSet (?st * ?c * ?n) (iSample + 1) (?st * ?c * (iSample + 1)) ?w1 ?t1 ?bins1"
    using neq by (subst BinSumsInteractionInternal_samples.simps) (simp add: step)
  also note rec
  finally show ?case
    unfolding t using lt by (simp add: upt_conv_Cons)
qed

text \<open>
  The kernel refines the aggregation of the spec: in a release build under the
  preconditions, and in a debug build when the assertions hold as well.
\<close>

lemma BinSumsInteractionInternal_refines:
  fixes pInteractionShell :: "('f :: {zero, one, plus, times, uminus, minus, ord}, 'b :: {zero, ord}) InteractionShell"
  assumes "binSums_pre (IsClassification cCompilerClasses)
             (GetCountScores (GET_COUNT_CLASSES cCompilerClasses (m_cClasses (m_pInteractionCore pInteractionShell))))
             pInteractionShell pTerm"
    and "GET_DIMENSIONS cCompilerDimensions (m_cSignificantDimensions pTerm) = length (m_aTermEntries pTerm)"
    and "dbg \<longrightarrow> debug_asserts env (IsClassification cCompilerClasses)
             (GetCountScores (GET_COUNT_CLASSES cCompilerClasses (m_cClasses (m_pInteractionCore pInteractionShell))))
             pTerm (m_dataFrame (m_pInteractionCore pInteractionShell)) (m_aBinsFast pInteractionShell)"
  shows "BinSumsInteractionInternal env dbg cCompilerClasses cCompilerDimensions pInteractionShell pTerm =
         Inr (pInteractionShell\<lparr>m_aBinsFast :=
                binSums (IsClassification cCompilerClasses)
                  (GetCountScores (GET_COUNT_CLASSES cCompilerClasses (m_cClasses (m_pInteractionCore pInteractionShell))))
                  pTerm (m_dataFrame (m_pInteractionCore pInteractionShell))
                  (m_aBinsFast pInteractionShell)\<rparr>)"
proof -
  let ?ds = "m_dataFrame (m_pInteractionCore pInteractionShell)"
  let ?cl = "GET_COUNT_CLASSES cCompilerClasses (m_cClasses (m_pInteractionCore pInteractionShell))"
  let ?b = "IsClassification cCompilerClasses"
  from assms(1) have
    feat: "list_all (feature_ok ?ds) (m_aTermEntries pTerm)"
    and ne: "m_aTermEntries pTerm \<noteq> []"
    and d: "m_cDimensions pTerm = length (m_aTermEntries pTerm)"
       "m_cSignificantDimensions pTerm = length (m_aTermEntries pTerm)"
    and gh: "length (m_aGradientsAndHessians ?ds) =
           (if ?b then 2 else 1) * GetCountScores ?cl * m_cSamplesDataSet ?ds"
    and len: "length (m_aBinsFast pInteractionShell) = prod_list (term_bins pTerm)"
       "length (m_aBinsFast pInteractionShell) < 2 ^ 64"
    and pairs: "list_all (\<lambda>bin. length (m_aGradientPairs bin) = GetCountScores ?cl) (m_aBinsFast pInteractionShell)"
    and w: "case m_aWeights ?ds of None \<Rightarrow> True
              | Some aWeights \<Rightarrow> length aWeights = m_cSamplesDataSet ?ds \<and> (0 :: nat) = 0"
    by (auto simp: binSums_pre_def Let_def split: option.splits)
  have pos: "1 \<le> length (m_aTermEntries pTerm)" using ne by (cases "m_aTermEntries pTerm") auto
  have as: "dbg \<and> ?b \<longrightarrow>
      (\<forall>s. 0 \<le> s \<and> s < m_cSamplesDataSet ?ds \<longrightarrow>
         sample_asserts env (GetCountScores ?cl) pTerm ?ds
           (foldl (binSums_sample ?b (GetCountScores ?cl) pTerm ?ds) (m_aBinsFast pInteractionShell) [0..<s]) s)"
    using assms(3) by (auto simp: debug_asserts_def list_all_iff)
  note loop = samples_loop [where iSample = 0 and dbg = dbg and pWeight = 0 and env = env
      and weightTotalDebug = 0, OF feat ne gh _ len pairs w as, simplified]
  show ?thesis
  proof (cases dbg)
    case False
    then show ?thesis
      using loop d pos assms(2)
      by (simp add: BinSumsInteractionInternal_def Let_def binSums_def)
  next
    case True
    with assms(3) have a: "\<not> IsOverflowBinSize_FloatFast env ?b (GetCountScores ?cl)"
      "0 < m_weightTotal ?ds"
      "case m_aWeights ?ds of
         None \<Rightarrow> FloatBig_size_t env (m_cSamplesDataSet ?ds) = m_weightTotal ?ds
       | Some aWeights \<Rightarrow>
           FloatBig_0_999 env (foldl (+) 0 aWeights) \<le> m_weightTotal ?ds \<and>
           m_weightTotal ?ds \<le> FloatBig_1_001 env (foldl (+) 0 aWeights)"
      by (simp_all add: debug_asserts_def)
    show ?thesis
      using loop d pos assms(2) a True
      by (cases "m_aWeights ?ds") (simp_all add: BinSumsInteractionInternal_def Let_def binSums_def)
  qed
qed

section \<open>Invariants of the aggregation\<close>

lemma binSums_fold_induct:
  assumes "Q 0 aBins"
    and "\<And>m bins. m < n \<Longrightarrow> Q m bins \<Longrightarrow>
           Q (Suc m) (binSums_sample bClassification cScores pTerm pDataSet bins m)"
  shows "Q n (foldl (binSums_sample bClassification cScores pTerm pDataSet) aBins [0..<n])"
  using assms(2)
proof (induction n)
  case 0
  show ?case using assms(1) by simp
next
  case (Suc n)
  have "Q n (foldl (binSums_sample bClassification cScores pTerm pDataSet) aBins [0..<n])"
    by (rule Suc.IH) (simp add: Suc.prems)
  then show ?case using Suc.prems [of n] by simp
qed

lemma binSums_frame:
  "length (binSums bClassification cScores pTerm pDataSet aBins) = length aBins \<and>
   (\<forall>j. j \<notin> sample_index pTerm pDataSet ` {0..<m_cSamplesDataSet pDataSet} \<longrightarrow>
        binSums bClassification cScores pTerm pDataSet aBins ! j = aBins ! j)"
  unfolding binSums_def
proof (rule binSums_fold_induct
    [where Q = "\<lambda>m bins. length bins = length aBins \<and>
                  (\<forall>j. j \<notin> sample_index pTerm pDataSet ` {0..<m} \<longrightarrow> bins ! j = aBins ! j)"],
    goal_cases)
  case 1
  show ?case by simp
next
  case (2 m bins)
  have "{0..<Suc m} = insert m {0..<m}" by auto
  with 2 show ?case
    by (auto simp: binSums_sample_def)
qed

lemma foldl_exact:
  fixes emb :: "nat \<Rightarrow> 'f :: {zero, one, plus}"
  assumes "exact_counts emb N"
  shows "a + sum_list cs \<le> N \<Longrightarrow> foldl (+) (emb a) (map emb cs) = emb (a + sum_list cs)"
proof (induction cs arbitrary: a)
  case Nil
  then show ?case by simp
next
  case (Cons c cs)
  then have "a + c \<le> N" "a \<le> N" "c \<le> N" by simp_all
  with assms have "emb a + emb c = emb (a + c)" by (auto simp: exact_counts_def)
  moreover have "foldl (+) (emb (a + c)) (map emb cs) = emb (a + c + sum_list cs)"
    using Cons.prems by (intro Cons.IH) simp
  ultimately show ?case by (simp add: add.assoc)
qed

lemma sum_list_of_nat: "sum_list (map of_nat cs) = (of_nat (sum_list cs) :: 'a :: semiring_1)"
  by (induction cs) simp_all

lemma binSums_counts:
  fixes pDataSet :: "('f :: {zero, one, plus, times}, 'b) DataSetInteraction"
    and emb :: "nat \<Rightarrow> 'f"
  assumes feat: "list_all (feature_ok pDataSet) (m_aTermEntries pTerm)"
    and len: "length aBins = prod_list (term_bins pTerm)"
    and zero: "list_all (\<lambda>bin. m_cSamples bin = 0 \<and> m_weight bin = 0) aBins"
    and ex: "ex \<longrightarrow> m_aWeights pDataSet = None \<and> exact_counts emb (m_cSamplesDataSet pDataSet)"
  shows "\<exists>cs. length cs = length aBins \<and> sum_list cs = m_cSamplesDataSet pDataSet \<and>
           map m_cSamples (binSums bClassification cScores pTerm pDataSet aBins) = map of_nat cs \<and>
           (ex \<longrightarrow> map m_weight (binSums bClassification cScores pTerm pDataSet aBins) = map emb cs)"
proof -
  have "\<exists>cs. length cs = length aBins \<and> sum_list cs = m_cSamplesDataSet pDataSet \<and>
          length (foldl (binSums_sample bClassification cScores pTerm pDataSet) aBins
                    [0..<m_cSamplesDataSet pDataSet]) = length aBins \<and>
          map m_cSamples (foldl (binSums_sample bClassification cScores pTerm pDataSet) aBins
                    [0..<m_cSamplesDataSet pDataSet]) = map of_nat cs \<and>
          (ex \<longrightarrow> map m_weight (foldl (binSums_sample bClassification cScores pTerm pDataSet) aBins
                    [0..<m_cSamplesDataSet pDataSet]) = map emb cs)"
  proof (rule binSums_fold_induct
    [where Q = "\<lambda>m bins. \<exists>cs. length cs = length aBins \<and> sum_list cs = m \<and> length bins = length aBins \<and>
                  map m_cSamples bins = map of_nat cs \<and> (ex \<longrightarrow> map m_weight bins = map emb cs)"],
     goal_cases)
    case 1
    have "map m_cSamples aBins = map of_nat (replicate (length aBins) 0)"
      using zero by (auto simp: list_all_iff intro!: nth_equalityI)
    moreover have "ex \<longrightarrow> map m_weight aBins = map emb (replicate (length aBins) 0)"
      using zero ex by (auto simp: list_all_iff exact_counts_def intro!: nth_equalityI)
    ultimately show ?case
      by (intro exI [of _ "replicate (length aBins) 0"]) simp
  next
    case (2 m bins)
    then obtain cs where cs: "length cs = length aBins" "sum_list cs = m" "length bins = length aBins"
      "map m_cSamples bins = map of_nat cs" "ex \<longrightarrow> map m_weight bins = map emb cs"
      by blast
    let ?i = "sample_index pTerm pDataSet m"
    let ?bin' = "bin_add_sample bClassification cScores pDataSet m (bins ! ?i)"
    have i: "?i < length aBins" using sample_index_less [OF feat "2"(1)] len by simp
    have ci: "m_cSamples (bins ! ?i) = of_nat (cs ! ?i)"
      using cs(3,4) i by (metis length_map nth_map)
    have c': "m_cSamples ?bin' = of_nat (Suc (cs ! ?i))"
      using ci by (simp add: bin_add_sample_def Let_def)
    have le: "cs ! ?i \<le> m" using member_le_sum_list [of "cs ! ?i" cs] cs(1,2) i by simp
    have w': "m_weight ?bin' = emb (Suc (cs ! ?i))" if ex
    proof -
      have wi: "m_weight (bins ! ?i) = emb (cs ! ?i)"
        using cs(3,5) i that by (metis length_map nth_map)
      have e: "exact_counts emb (m_cSamplesDataSet pDataSet)" using ex that by simp
      have "cs ! ?i \<in> {..m_cSamplesDataSet pDataSet}" "1 \<in> {..m_cSamplesDataSet pDataSet}"
        "cs ! ?i + 1 \<le> m_cSamplesDataSet pDataSet"
        using le "2"(1) by simp_all
      with e have "emb (cs ! ?i) + emb 1 = emb (cs ! ?i + 1)"
        unfolding exact_counts_def by blast
      then show ?thesis
        using ex that wi by (simp add: bin_add_sample_def Let_def sample_weight_def exact_counts_def)
    qed
    show ?case
    proof (intro exI [of _ "cs[?i := Suc (cs ! ?i)]"] conjI impI)
      show "sum_list (cs[?i := Suc (cs ! ?i)]) = Suc m"
        using i cs(1,2) le by (simp add: sum_list_update)
      show "map m_cSamples (binSums_sample bClassification cScores pTerm pDataSet bins m) =
            map of_nat (cs[?i := Suc (cs ! ?i)])"
        unfolding binSums_sample_def map_update c' cs(4) by simp
      show "map m_weight (binSums_sample bClassification cScores pTerm pDataSet bins m) =
            map emb (cs[?i := Suc (cs ! ?i)])" if ex
        unfolding binSums_sample_def map_update w' [OF that] using cs(5) that by simp
    qed (simp_all add: cs)
  qed
    then show ?thesis unfolding binSums_def by auto
  qed

lemma exact_counts_real: "exact_counts (real :: nat \<Rightarrow> real) N"
  by (simp add: exact_counts_def)

lemma binSums_weight_is_count:
  fixes pDataSet :: "('f :: {zero, one, plus, times}, 'b) DataSetInteraction"
    and emb :: "nat \<Rightarrow> 'f"
  assumes feat: "list_all (feature_ok pDataSet) (m_aTermEntries pTerm)"
    and len: "length aBins = prod_list (term_bins pTerm)"
    and zero: "list_all (\<lambda>bin. m_cSamples bin = 0 \<and> m_weight bin = 0) aBins"
    and n: "m_cSamplesDataSet pDataSet < 2 ^ 64"
    and none: "m_aWeights pDataSet = None"
    and ex: "exact_counts emb (m_cSamplesDataSet pDataSet)"
  shows "list_all (\<lambda>bin. m_weight bin = emb (unat (m_cSamples bin)))
           (binSums bClassification cScores pTerm pDataSet aBins)"
    and "foldl (+) 0 (map m_weight (binSums bClassification cScores pTerm pDataSet aBins)) =
         emb (unat (sum_list (map m_cSamples (binSums bClassification cScores pTerm pDataSet aBins))))"
proof -
  let ?bins = "binSums bClassification cScores pTerm pDataSet aBins"
  from binSums_counts [OF feat len zero, of True emb] none ex
  obtain cs where cs: "length cs = length aBins" "sum_list cs = m_cSamplesDataSet pDataSet"
    "map m_cSamples ?bins = map of_nat cs" "map m_weight ?bins = map emb cs"
    by auto
  have lb: "length ?bins = length cs" using cs(3) by (metis length_map)
  have small: "c < 2 ^ 64" if "c \<in> set cs" for c
    using member_le_sum_list [OF that] cs(2) n by simp
  show "list_all (\<lambda>bin. m_weight bin = emb (unat (m_cSamples bin))) ?bins"
    unfolding list_all_length
  proof (intro allI impI)
    fix j assume j: "j < length ?bins"
    then have "m_cSamples (?bins ! j) = of_nat (cs ! j)" "m_weight (?bins ! j) = emb (cs ! j)"
      using cs(3,4) lb by (metis length_map nth_map)+
    moreover have "unat (of_nat (cs ! j) :: size_t) = cs ! j"
      using small [of "cs ! j"] j lb by (simp add: unat_of_nat)
    ultimately show "m_weight (?bins ! j) = emb (unat (m_cSamples (?bins ! j)))" by simp
  qed
  have "sum_list (map m_cSamples ?bins) = of_nat (sum_list cs)"
    by (simp add: cs(3) sum_list_of_nat)
  then have u: "unat (sum_list (map m_cSamples ?bins)) = sum_list cs"
    using cs(2) n by (simp add: unat_of_nat)
  have e0: "emb 0 = 0" using ex by (simp add: exact_counts_def)
  have "foldl (+) (emb 0) (map emb cs) = emb (0 + sum_list cs)"
    by (rule foldl_exact [OF ex]) (simp add: cs(2))
  then show "foldl (+) 0 (map m_weight ?bins) = emb (unat (sum_list (map m_cSamples ?bins)))"
    by (simp add: cs(4) u e0)
qed

lemma binSums_count_total:
  fixes pDataSet :: "('f :: {zero, one, plus, times}, 'b) DataSetInteraction"
  assumes feat: "list_all (feature_ok pDataSet) (m_aTermEntries pTerm)"
    and len: "length aBins = prod_list (term_bins pTerm)"
    and zero: "list_all (\<lambda>bin. m_cSamples bin = 0 \<and> m_weight bin = 0) aBins"
    and n: "m_cSamplesDataSet pDataSet < 2 ^ 64"
  shows "unat (sum_list (map m_cSamples (binSums bClassification cScores pTerm pDataSet aBins))) =
         m_cSamplesDataSet pDataSet"
proof -
  let ?bins = "binSums bClassification cScores pTerm pDataSet aBins"
  from binSums_counts [OF feat len zero, of False "\<lambda>_. 0"]
  obtain cs where cs: "sum_list cs = m_cSamplesDataSet pDataSet" "map m_cSamples ?bins = map of_nat cs"
    by auto
  have "sum_list (map m_cSamples ?bins) = of_nat (sum_list cs)"
    by (simp add: cs(2) sum_list_of_nat)
  then show ?thesis using cs(1) n by (simp add: unat_of_nat)
qed

text \<open>The bound on the Hessian sums, by induction over the samples.\<close>

lemma quarter_sum_Suc:
  "quarter_sum env pTerm pDataSet (Suc m) i =
     (if sample_index pTerm pDataSet m = i
      then quarter_sum env pTerm pDataSet m i + FloatFast_quarter env * sample_weight pDataSet m
      else quarter_sum env pTerm pDataSet m i)"
  by (simp add: quarter_sum_def)

lemma binSums_hessian_bounds:
  fixes pDataSet :: "('f :: {zero, one, plus, times, ord}, 'b) DataSetInteraction"
  assumes feat: "list_all (feature_ok pDataSet) (m_aTermEntries pTerm)"
    and len: "length aBins = prod_list (term_bins pTerm)"
    and pairs: "list_all (\<lambda>bin. length (m_aGradientPairs bin) = cScores) aBins"
    and zero: "zeroed aBins"
    and laws: "monotone_floats env"
    and h: "hessians_in_range env cScores pDataSet"
    and w: "weights_nonnegative env pDataSet"
  shows "hessian_bound_by_quarters env pTerm pDataSet (binSums True cScores pTerm pDataSet aBins)"
proof -
  let ?q = "FloatFast_quarter env"
  let ?Q = "\<lambda>m bins. length bins = length aBins \<and>
      (\<forall>i < length aBins. length (m_aGradientPairs (bins ! i)) = cScores \<and>
         (\<forall>k < cScores. 0 \<le> m_sumHessians (m_aGradientPairs (bins ! i) ! k) \<and>
            m_sumHessians (m_aGradientPairs (bins ! i) ! k) \<le> quarter_sum env pTerm pDataSet m i))"
  from laws have z: "(0 :: 'f) \<le> 0"
    and add: "\<And>a b c d :: 'f. 0 \<le> a \<Longrightarrow> a \<le> b \<Longrightarrow> 0 \<le> c \<Longrightarrow> c \<le> d \<Longrightarrow> 0 \<le> a + c \<and> a + c \<le> b + d"
    and mul: "\<And>h w :: 'f. 0 \<le> h \<Longrightarrow> h \<le> ?q \<Longrightarrow> 0 \<le> w \<Longrightarrow> \<not> std_isinf env w \<Longrightarrow>
                0 \<le> h * w \<and> h * w \<le> ?q * w"
    unfolding monotone_floats_def by (simp, blast, blast)
  have "?Q (m_cSamplesDataSet pDataSet)
      (foldl (binSums_sample True cScores pTerm pDataSet) aBins [0..<m_cSamplesDataSet pDataSet])"
  proof (rule binSums_fold_induct [where Q = ?Q], goal_cases)
    case 1
    have "length (m_aGradientPairs (aBins ! i)) = cScores \<and>
         (\<forall>k < cScores. 0 \<le> m_sumHessians (m_aGradientPairs (aBins ! i) ! k) \<and>
            m_sumHessians (m_aGradientPairs (aBins ! i) ! k) \<le> quarter_sum env pTerm pDataSet 0 i)"
      if i: "i < length aBins" for i
    proof -
      have m: "aBins ! i \<in> set aBins" using i by simp
      with pairs have l: "length (m_aGradientPairs (aBins ! i)) = cScores" by (simp add: list_all_iff)
      have "m_sumHessians (m_aGradientPairs (aBins ! i) ! k) = 0" if "k < cScores" for k
        using zero m l that by (auto simp: zeroed_def list_all_iff)
      with l z show ?thesis by (simp add: quarter_sum_def)
    qed
    then show ?case by simp
  next
    case (2 m bins)
    let ?i = "sample_index pTerm pDataSet m"
    let ?w = "sample_weight pDataSet m"
    have il: "?i < length aBins" using sample_index_less [OF feat "2"(1)] len by simp
    have w0: "0 \<le> ?w" "\<not> std_isinf env ?w"
      using w "2"(1) by (simp_all add: weights_nonnegative_def list_all_iff)
    have hk: "0 \<le> sample_hessian cScores pDataSet m k" "sample_hessian cScores pDataSet m k \<le> ?q"
      if "k < cScores" for k
      using h "2"(1) that by (simp_all add: hessians_in_range_def list_all_iff)
    from "2"(2) have lb: "length bins = length aBins"
      and inv: "\<And>i. i < length aBins \<Longrightarrow> length (m_aGradientPairs (bins ! i)) = cScores \<and>
         (\<forall>k < cScores. 0 \<le> m_sumHessians (m_aGradientPairs (bins ! i) ! k) \<and>
            m_sumHessians (m_aGradientPairs (bins ! i) ! k) \<le> quarter_sum env pTerm pDataSet m i)"
      by blast+
    let ?bins' = "binSums_sample True cScores pTerm pDataSet bins m"
    have "length (m_aGradientPairs (?bins' ! i)) = cScores \<and>
         (\<forall>k < cScores. 0 \<le> m_sumHessians (m_aGradientPairs (?bins' ! i) ! k) \<and>
            m_sumHessians (m_aGradientPairs (?bins' ! i) ! k) \<le> quarter_sum env pTerm pDataSet (Suc m) i)"
      if i: "i < length aBins" for i
    proof (cases "i = ?i")
      case False
      then have "?bins' ! i = bins ! i" by (simp add: binSums_sample_def)
      moreover have "quarter_sum env pTerm pDataSet (Suc m) i = quarter_sum env pTerm pDataSet m i"
        using False by (simp add: quarter_sum_Suc)
      ultimately show ?thesis using inv [OF i] by simp
    next
      case True
      have b: "?bins' ! i = bin_add_sample True cScores pDataSet m (bins ! i)"
        using True il lb by (simp add: binSums_sample_def)
      have qs: "quarter_sum env pTerm pDataSet (Suc m) i = quarter_sum env pTerm pDataSet m i + ?q * ?w"
        using True by (simp add: quarter_sum_Suc)
      have "0 \<le> m_sumHessians (m_aGradientPairs (bins ! i) ! k) + sample_hessian cScores pDataSet m k * ?w \<and>
            m_sumHessians (m_aGradientPairs (bins ! i) ! k) + sample_hessian cScores pDataSet m k * ?w \<le>
              quarter_sum env pTerm pDataSet m i + ?q * ?w" if k: "k < cScores" for k
      proof -
        from inv [OF i] k have a: "0 \<le> m_sumHessians (m_aGradientPairs (bins ! i) ! k)"
          "m_sumHessians (m_aGradientPairs (bins ! i) ! k) \<le> quarter_sum env pTerm pDataSet m i"
          by simp_all
        from mul [OF hk [OF k] w0] have c: "0 \<le> sample_hessian cScores pDataSet m k * ?w"
          "sample_hessian cScores pDataSet m k * ?w \<le> ?q * ?w"
          by simp_all
        show ?thesis by (rule add [OF a c])
      qed
      then show ?thesis
        unfolding b qs by (simp add: bin_add_sample_def Let_def)
    qed
    then show ?case using lb by simp
  qed
  then show ?thesis
    unfolding binSums_def hessian_bound_by_quarters_def list_all_iff
    by (auto simp: in_set_conv_nth)
qed

lemma quarter_sum_exact_scaling:
  fixes pDataSet :: "('f :: {zero, one, plus, times}, 'b) DataSetInteraction"
  assumes feat: "list_all (feature_ok pDataSet) (m_aTermEntries pTerm)"
    and len: "length aBins = prod_list (term_bins pTerm)"
    and zero: "list_all (\<lambda>bin. m_cSamples bin = 0 \<and> m_weight bin = 0) aBins"
    and ex: "exact_scaling env"
    and i: "i < length aBins"
  shows "quarter_sum env pTerm pDataSet (m_cSamplesDataSet pDataSet) i =
         FloatFast_quarter env * m_weight (binSums bClassification cScores pTerm pDataSet aBins ! i)"
proof -
  let ?q = "FloatFast_quarter env"
  let ?Q = "\<lambda>m bins. length bins = length aBins \<and>
      (\<forall>i < length aBins. quarter_sum env pTerm pDataSet m i = ?q * m_weight (bins ! i))"
  from ex have q0: "?q * 0 = 0" and dist: "\<And>a b :: 'f. ?q * a + ?q * b = ?q * (a + b)"
    unfolding exact_scaling_def by (simp, blast)
  have "?Q (m_cSamplesDataSet pDataSet)
      (foldl (binSums_sample bClassification cScores pTerm pDataSet) aBins [0..<m_cSamplesDataSet pDataSet])"
  proof (rule binSums_fold_induct [where Q = ?Q], goal_cases)
    case 1
    have "m_weight (aBins ! j) = 0" if "j < length aBins" for j
      using zero that by (simp add: list_all_length)
    then show ?case by (simp add: quarter_sum_def q0)
  next
    case (2 m bins)
    let ?i = "sample_index pTerm pDataSet m"
    have il: "?i < length aBins" using sample_index_less [OF feat "2"(1)] len by simp
    from "2"(2) have lb: "length bins = length aBins"
      and inv: "\<And>j. j < length aBins \<Longrightarrow> quarter_sum env pTerm pDataSet m j = ?q * m_weight (bins ! j)"
      by blast+
    let ?bins' = "binSums_sample bClassification cScores pTerm pDataSet bins m"
    have "quarter_sum env pTerm pDataSet (Suc m) j = ?q * m_weight (?bins' ! j)"
      if j: "j < length aBins" for j
    proof (cases "j = ?i")
      case False
      then show ?thesis using inv [OF j] by (simp add: binSums_sample_def quarter_sum_Suc)
    next
      case True
      have "m_weight (?bins' ! j) = m_weight (bins ! j) + sample_weight pDataSet m"
        using True il lb by (simp add: binSums_sample_def bin_add_sample_def Let_def)
      then show ?thesis using True inv [OF j] by (simp add: quarter_sum_Suc dist)
    qed
    then show ?case using lb by simp
  qed
  then show ?thesis using i by (simp add: binSums_def)
qed

lemma quarter_sum_count:
  fixes pDataSet :: "('f :: {zero, one, plus, times}, 'b) DataSetInteraction"
    and embq :: "nat \<Rightarrow> 'f"
  assumes feat: "list_all (feature_ok pDataSet) (m_aTermEntries pTerm)"
    and len: "length aBins = prod_list (term_bins pTerm)"
    and zero: "list_all (\<lambda>bin. m_cSamples bin = 0 \<and> m_weight bin = 0) aBins"
    and n: "m_cSamplesDataSet pDataSet < 2 ^ 64"
    and none: "m_aWeights pDataSet = None"
    and ex: "exact_quarters env embq (m_cSamplesDataSet pDataSet)"
    and i: "i < length aBins"
  shows "quarter_sum env pTerm pDataSet (m_cSamplesDataSet pDataSet) i =
         embq (unat (m_cSamples (binSums bClassification cScores pTerm pDataSet aBins ! i)))"
proof -
  let ?q = "FloatFast_quarter env"
  let ?c = "\<lambda>m j. length (filter (\<lambda>s. sample_index pTerm pDataSet s = j) [0..<m])"
  let ?Q = "\<lambda>m bins. length bins = length aBins \<and>
      (\<forall>j < length aBins. m_cSamples (bins ! j) = of_nat (?c m j) \<and>
         quarter_sum env pTerm pDataSet m j = embq (?c m j))"
  from ex have e0: "embq 0 = 0"
    and step: "\<And>a. a < m_cSamplesDataSet pDataSet \<Longrightarrow> embq a + ?q * 1 = embq (a + 1)"
    unfolding exact_quarters_def by (simp, blast)
  have cm: "?c m j \<le> m" for m j
    using length_filter_le [of "\<lambda>s. sample_index pTerm pDataSet s = j" "[0..<m]"] by simp
  have "?Q (m_cSamplesDataSet pDataSet)
      (foldl (binSums_sample bClassification cScores pTerm pDataSet) aBins [0..<m_cSamplesDataSet pDataSet])"
  proof (rule binSums_fold_induct [where Q = ?Q], goal_cases)
    case 1
    have "m_cSamples (aBins ! j) = 0" if "j < length aBins" for j
      using zero that by (simp add: list_all_length)
    then show ?case by (simp add: quarter_sum_def e0)
  next
    case (2 m bins)
    let ?i = "sample_index pTerm pDataSet m"
    have il: "?i < length aBins" using sample_index_less [OF feat "2"(1)] len by simp
    from "2"(2) have lb: "length bins = length aBins"
      and inv: "\<And>j. j < length aBins \<Longrightarrow> m_cSamples (bins ! j) = of_nat (?c m j) \<and>
         quarter_sum env pTerm pDataSet m j = embq (?c m j)"
      by blast+
    let ?bins' = "binSums_sample bClassification cScores pTerm pDataSet bins m"
    have "m_cSamples (?bins' ! j) = of_nat (?c (Suc m) j) \<and>
         quarter_sum env pTerm pDataSet (Suc m) j = embq (?c (Suc m) j)"
      if j: "j < length aBins" for j
    proof (cases "j = ?i")
      case False
      then show ?thesis using inv [OF j] by (simp add: binSums_sample_def quarter_sum_Suc)
    next
      case True
      have c': "?c (Suc m) j = ?c m j + 1" using True by simp
      have "m_cSamples (?bins' ! j) = m_cSamples (bins ! j) + 1"
        using True il lb by (simp add: binSums_sample_def bin_add_sample_def Let_def)
      then have a: "m_cSamples (?bins' ! j) = of_nat (?c (Suc m) j)"
        using inv [OF j] unfolding c' by simp
      have "?c m j < m_cSamplesDataSet pDataSet" using cm [of j m] "2"(1) by simp
      from step [OF this] have "embq (?c m j) + ?q * sample_weight pDataSet m = embq (?c m j + 1)"
        by (simp add: sample_weight_def none)
      then have b: "quarter_sum env pTerm pDataSet (Suc m) j = embq (?c (Suc m) j)"
        using True inv [OF j] unfolding c' by (simp add: quarter_sum_Suc)
      from a b show ?thesis by simp
    qed
    then show ?case using lb by simp
  qed
  then have r: "m_cSamples (binSums bClassification cScores pTerm pDataSet aBins ! i) =
      of_nat (?c (m_cSamplesDataSet pDataSet) i)"
    "quarter_sum env pTerm pDataSet (m_cSamplesDataSet pDataSet) i = embq (?c (m_cSamplesDataSet pDataSet) i)"
    using i by (simp_all add: binSums_def)
  have "?c (m_cSamplesDataSet pDataSet) i < 2 ^ 64"
    using cm [of i "m_cSamplesDataSet pDataSet"] n by simp
  then have "unat (of_nat (?c (m_cSamplesDataSet pDataSet) i) :: size_t) = ?c (m_cSamplesDataSet pDataSet) i"
    by (simp add: unat_of_nat)
  with r show ?thesis by simp
qed

section \<open>The boosting initializer writes the gradients of its pass\<close>

lemma gradients_boosting_split:
  assumes "s < length xs"
  shows "gradients_boosting xs =
         gradients_boosting (take s xs) @ m_aGradHessBoosting (xs ! s) @ gradients_boosting (drop (Suc s) xs)"
proof -
  have "xs = take s xs @ xs ! s # drop (Suc s) xs"
    using assms by (simp add: id_take_nth_drop [symmetric])
  then have "gradients_boosting xs = gradients_boosting (take s xs @ xs ! s # drop (Suc s) xs)"
    by simp
  then show ?thesis by (simp add: gradients_boosting_def)
qed

lemma entry_index_less:
  "at_entry xs s p \<Longrightarrow> entry_index xs s p < length (gradients_boosting xs)"
  using gradients_boosting_split [of s xs]
  by (simp add: at_entry_def entry_index_def)

lemma gradients_boosting_write:
  assumes "at_entry xs s p"
  shows "gradients_boosting (xs[s := (xs ! s)\<lparr>m_aGradHessBoosting := (m_aGradHessBoosting (xs ! s))[p := g]\<rparr>]) =
         (gradients_boosting xs)[entry_index xs s p := g]"
proof -
  let ?y = "(xs ! s)\<lparr>m_aGradHessBoosting := (m_aGradHessBoosting (xs ! s))[p := g]\<rparr>"
  from assms have s: "s < length xs" and p: "p < length (m_aGradHessBoosting (xs ! s))"
    by (simp_all add: at_entry_def)
  have "xs[s := ?y] = take s xs @ ?y # drop (Suc s) xs"
    using s by (simp add: upd_conv_take_nth_drop)
  then have "gradients_boosting (xs[s := ?y]) =
      gradients_boosting (take s xs) @ (m_aGradHessBoosting (xs ! s))[p := g] @ gradients_boosting (drop (Suc s) xs)"
    by (simp add: gradients_boosting_def)
  also have "\<dots> = (gradients_boosting (take s xs) @ m_aGradHessBoosting (xs ! s) @
      gradients_boosting (drop (Suc s) xs))[entry_index xs s p := g]"
    using p by (simp add: entry_index_def list_update_append)
  also have "\<dots> = (gradients_boosting xs)[entry_index xs s p := g]"
    using gradients_boosting_split [OF s] by simp
  finally show ?thesis .
qed

lemma counts_boosting_write [simp]:
  "counts_boosting (xs[s := (xs ! s)\<lparr>m_aGradHessBoosting := (m_aGradHessBoosting (xs ! s))[p := g]\<rparr>]) =
   counts_boosting xs"
proof (cases "s < length xs")
  case True
  then have "(counts_boosting xs)[s := counts_boosting xs ! s] = counts_boosting xs"
    by simp
  with True show ?thesis
    by (simp add: counts_boosting_def map_update)
next
  case False
  then show ?thesis by (simp add: list_update_beyond)
qed

lemma counts_boosting_nth:
  "counts_boosting xs = counts_boosting ys \<Longrightarrow> s < length xs \<Longrightarrow>
   length (m_aGradHessBoosting (ys ! s)) = length (m_aGradHessBoosting (xs ! s))"
  unfolding counts_boosting_def by (metis length_map nth_map)

lemma entry_index_next_subset:
  assumes "s < length xs" and "length (m_aGradHessBoosting (xs ! s)) = p + 1"
  shows "entry_index xs (s + 1) 0 = entry_index xs s p + 1"
proof -
  have "take (Suc s) xs = take s xs @ [xs ! s]"
    using assms(1) by (simp add: take_Suc_conv_app_nth)
  then show ?thesis using assms(2)
    by (simp add: entry_index_def gradients_boosting_def)
qed

lemma entry_index_last:
  assumes "length xs = s + 1" and "length (m_aGradHessBoosting (xs ! s)) = p + 1"
  shows "length (gradients_boosting xs) = entry_index xs s p + 1"
  using gradients_boosting_split [of s xs] assms
  by (simp add: entry_index_def gradients_boosting_def)

lemma length_gradients_take:
  "length (gradients_boosting (take s zs)) = sum_list (take s (counts_boosting zs))"
  by (simp add: gradients_boosting_def counts_boosting_def length_concat take_map comp_def)

lemma entry_index_counts:
  "counts_boosting xs = counts_boosting ys \<Longrightarrow> entry_index xs s p = entry_index ys s p"
  by (simp add: entry_index_def length_gradients_take)

lemma at_entry_counts:
  "counts_boosting xs = counts_boosting ys \<Longrightarrow> at_entry xs s p = at_entry ys s p"
proof -
  assume a: "counts_boosting xs = counts_boosting ys"
  then have l: "length xs = length ys" unfolding counts_boosting_def by (metis length_map)
  show ?thesis
  proof (cases "s < length xs")
    case True
    with counts_boosting_nth [OF a True] l show ?thesis by (simp add: at_entry_def)
  next
    case False
    with l show ?thesis by (simp add: at_entry_def)
  qed
qed

lemma length_gradients_counts:
  "counts_boosting xs = counts_boosting ys \<Longrightarrow>
   length (gradients_boosting xs) = length (gradients_boosting ys)"
  by (simp add: gradients_boosting_def counts_boosting_def length_concat comp_def)

text \<open>One step of the write loop: the entry is written and the position moves on.\<close>

lemma InitializeRmseBoosting_write_step:
  fixes xs :: "'f DataSubsetBoosting list" and g :: 'f and s p :: nat
  assumes at: "at_entry xs s p"
    and ne: "list_all (\<lambda>x. m_aGradHessBoosting x \<noteq> []) xs"
  defines "xs1 \<equiv> xs[s := (xs ! s)\<lparr>m_aGradHessBoosting := (m_aGradHessBoosting (xs ! s))[p := g]\<rparr>]"
  shows "(length (gradients_boosting xs) = entry_index xs s p + 1 \<and>
          InitializeRmseBoosting_write dbg d g r s p xs = Inr (Returned xs1)) \<or>
         (\<exists>s1 p1. at_entry xs1 s1 p1 \<and> entry_index xs1 s1 p1 = entry_index xs s p + 1 \<and>
            InitializeRmseBoosting_write dbg d g r s p xs =
              (if 0 \<noteq> r - d then InitializeRmseBoosting_write dbg d g (r - d) s1 p1 xs1
               else Inr (Continues (s1, p1, xs1))))"
proof -
  from at have s: "s < length xs" and p: "p < length (m_aGradHessBoosting (xs ! s))"
    by (simp_all add: at_entry_def)
  have c1: "counts_boosting xs1 = counts_boosting xs" by (simp add: xs1_def)
  note unf = InitializeRmseBoosting_write.simps [of dbg d g r s p xs]
  show ?thesis
  proof (cases "length (m_aGradHessBoosting (xs ! s)) = p + 1")
    case True
    show ?thesis
    proof (cases "length xs = s + 1")
      case last: True
      have "InitializeRmseBoosting_write dbg d g r s p xs = Inr (Returned xs1)"
        using s p True last by (simp add: unf Let_def xs1_def)
      with entry_index_last [OF last True] show ?thesis by simp
    next
      case more: False
      then have s1: "s + 1 < length xs" using s by simp
      then have "xs ! (s + 1) \<in> set xs" by simp
      with ne have ne1: "m_aGradHessBoosting (xs ! (s + 1)) \<noteq> []" by (simp add: list_all_iff)
      have "xs1 ! (s + 1) = xs ! (s + 1)" by (simp add: xs1_def)
      with ne1 have len1: "1 \<le> length (m_aGradHessBoosting (xs1 ! (s + 1)))"
        by (simp add: Suc_le_eq)
      have "at_entry xs (s + 1) 0" using s1 ne1 by (simp add: at_entry_def)
      then have at1: "at_entry xs1 (s + 1) 0" by (simp only: at_entry_counts [OF c1])
      have e1: "entry_index xs1 (s + 1) 0 = entry_index xs s p + 1"
        using entry_index_next_subset [OF s True] by (simp add: entry_index_counts [OF c1])
      have "InitializeRmseBoosting_write dbg d g r s p xs =
              (if 0 \<noteq> r - d then InitializeRmseBoosting_write dbg d g (r - d) (s + 1) 0 xs1
               else Inr (Continues (s + 1, 0, xs1)))"
        using s p True more len1 by (simp add: unf Let_def xs1_def [symmetric])
      with at1 e1 show ?thesis by blast
    qed
  next
    case False
    then have p1: "p + 1 < length (m_aGradHessBoosting (xs ! s))" using p by simp
    have "at_entry xs s (p + 1)" using s p1 by (simp add: at_entry_def)
    then have at1: "at_entry xs1 s (p + 1)" by (simp only: at_entry_counts [OF c1])
    have e1: "entry_index xs1 s (p + 1) = entry_index xs s p + 1"
      by (simp add: entry_index_counts [OF c1]) (simp add: entry_index_def)
    have "InitializeRmseBoosting_write dbg d g r s p xs =
              (if 0 \<noteq> r - d then InitializeRmseBoosting_write dbg d g (r - d) s (p + 1) xs1
               else Inr (Continues (s, p + 1, xs1)))"
      using s p False by (simp add: unf Let_def xs1_def [symmetric])
    with at1 e1 show ?thesis by blast
  qed
qed

lemma nonempty_counts:
  assumes "list_all (\<lambda>x. m_aGradHessBoosting x \<noteq> []) xs" and "counts_boosting ys = counts_boosting xs"
  shows "list_all (\<lambda>x. m_aGradHessBoosting x \<noteq> []) ys"
proof -
  have l: "length ys = length xs" using assms(2) unfolding counts_boosting_def by (metis length_map)
  have "m_aGradHessBoosting (ys ! i) \<noteq> []" if "i < length ys" for i
  proof -
    have "length (m_aGradHessBoosting (ys ! i)) = length (m_aGradHessBoosting (xs ! i))"
      using counts_boosting_nth [OF assms(2) [symmetric], of i] that l by simp
    moreover have "m_aGradHessBoosting (xs ! i) \<noteq> []"
      using assms(1) that l by (simp add: list_all_length)
    ultimately show ?thesis by auto
  qed
  then show ?thesis by (simp add: list_all_length)
qed

lemma t1: "Suc m = nat \<bar>r\<bar> \<Longrightarrow> (0 < r \<and> d = 1) \<or> (r < 0 \<and> d = - 1) \<Longrightarrow> nat \<bar>r - d\<bar> = m"
  by auto

lemma t2: "pos < length F \<Longrightarrow> take (pos + 1) (F[pos := g]) = take pos F @ [g]"
  by (simp add: take_Suc_conv_app_nth)

lemma t3: "pos < length F \<Longrightarrow> F[pos := g] = take pos F @ replicate (Suc 0) g @ drop (pos + Suc 0) F"
  by (simp add: upd_conv_take_nth_drop)

lemma t4: "pos < length F \<Longrightarrow> [g] @ replicate (length F - (pos + 1)) g = replicate (length F - pos) g"
  by (cases "length F - pos") simp_all

lemma InitializeRmseBoosting_write_loop:
  fixes xs :: "'f DataSubsetBoosting list" and g :: 'f
  assumes "at_entry xs s p"
    and ne: "list_all (\<lambda>x. m_aGradHessBoosting x \<noteq> []) xs"
    and "(0 < r \<and> d = 1) \<or> (r < 0 \<and> d = - 1)"
  shows "(entry_index xs s p + nat \<bar>r\<bar> < length (gradients_boosting xs) \<longrightarrow>
            (\<exists>s' p' xs'. InitializeRmseBoosting_write dbg d g r s p xs = Inr (Continues (s', p', xs')) \<and>
               counts_boosting xs' = counts_boosting xs \<and> at_entry xs' s' p' \<and>
               entry_index xs' s' p' = entry_index xs s p + nat \<bar>r\<bar> \<and>
               gradients_boosting xs' =
                 take (entry_index xs s p) (gradients_boosting xs) @ replicate (nat \<bar>r\<bar>) g @
                 drop (entry_index xs s p + nat \<bar>r\<bar>) (gradients_boosting xs))) \<and>
         (length (gradients_boosting xs) \<le> entry_index xs s p + nat \<bar>r\<bar> \<longrightarrow>
            (\<exists>xs'. InitializeRmseBoosting_write dbg d g r s p xs = Inr (Returned xs') \<and>
               counts_boosting xs' = counts_boosting xs \<and>
               gradients_boosting xs' =
                 take (entry_index xs s p) (gradients_boosting xs) @
                 replicate (length (gradients_boosting xs) - entry_index xs s p) g))"
  using assms
proof (induction "nat \<bar>r\<bar>" arbitrary: r s p xs)
  case 0
  then show ?case by auto
next
  case (Suc m)
  let ?F = "gradients_boosting xs"
  let ?pos = "entry_index xs s p"
  define xs1 where "xs1 = xs[s := (xs ! s)\<lparr>m_aGradHessBoosting := (m_aGradHessBoosting (xs ! s))[p := g]\<rparr>]"
  have c1: "counts_boosting xs1 = counts_boosting xs" by (simp add: xs1_def)
  have F1: "gradients_boosting xs1 = ?F[?pos := g]"
    unfolding xs1_def by (rule gradients_boosting_write [OF Suc.prems(1)])
  have pl: "?pos < length ?F" by (rule entry_index_less [OF Suc.prems(1)])
  have ne1: "list_all (\<lambda>x. m_aGradHessBoosting x \<noteq> []) xs1"
    by (rule nonempty_counts [OF Suc.prems(2) c1])
  have n: "nat \<bar>r\<bar> = Suc m" using Suc.hyps(2) by simp
  have m: "nat \<bar>r - d\<bar> = m" using n Suc.prems(3) by auto
  have z: "(0 \<noteq> r - d) = (m \<noteq> 0)" using m by auto
  have tk: "take (?pos + 1) (?F[?pos := g]) = take ?pos ?F @ [g]"
    using pl by (simp add: take_Suc_conv_app_nth)
  from InitializeRmseBoosting_write_step [OF Suc.prems(1,2), of dbg d g r, folded xs1_def]
  consider (ret) "length ?F = ?pos + 1" "InitializeRmseBoosting_write dbg d g r s p xs = Inr (Returned xs1)"
    | (cont) s1 p1 where "at_entry xs1 s1 p1" "entry_index xs1 s1 p1 = ?pos + 1"
        "InitializeRmseBoosting_write dbg d g r s p xs =
           (if 0 \<noteq> r - d then InitializeRmseBoosting_write dbg d g (r - d) s1 p1 xs1
            else Inr (Continues (s1, p1, xs1)))"
    by blast
  then show ?case
  proof cases
    case ret
    have g1: "gradients_boosting xs1 = take ?pos ?F @ replicate (length ?F - ?pos) g"
      using F1 ret(1) tk by (simp add: take_all)
    have le: "length ?F \<le> ?pos + nat \<bar>r\<bar>" using ret(1) n by simp
    show ?thesis
    proof (intro conjI impI)
      assume "?pos + nat \<bar>r\<bar> < length ?F"
      with le show "\<exists>s' p' xs'. InitializeRmseBoosting_write dbg d g r s p xs = Inr (Continues (s', p', xs')) \<and>
               counts_boosting xs' = counts_boosting xs \<and> at_entry xs' s' p' \<and>
               entry_index xs' s' p' = ?pos + nat \<bar>r\<bar> \<and>
               gradients_boosting xs' = take ?pos ?F @ replicate (nat \<bar>r\<bar>) g @ drop (?pos + nat \<bar>r\<bar>) ?F"
        by simp
    next
      show "\<exists>xs'. InitializeRmseBoosting_write dbg d g r s p xs = Inr (Returned xs') \<and>
               counts_boosting xs' = counts_boosting xs \<and>
               gradients_boosting xs' = take ?pos ?F @ replicate (length ?F - ?pos) g"
        using ret(2) c1 g1 by blast
    qed
  next
    case cont
    have pl1: "?pos + 1 < length ?F"
      using entry_index_less [OF cont(1)] cont(2) F1 by simp
    show ?thesis
    proof (cases "m = 0")
      case True
      then have w: "InitializeRmseBoosting_write dbg d g r s p xs = Inr (Continues (s1, p1, xs1))"
        using cont(3) z by simp
      have g1: "gradients_boosting xs1 = take ?pos ?F @ replicate (Suc 0) g @ drop (?pos + Suc 0) ?F"
        unfolding F1 using pl by (rule t3)
      have n1: "nat \<bar>r\<bar> = Suc 0" using n True by simp
      show ?thesis
        unfolding n1
      proof (intro conjI impI)
        show "\<exists>s' p' xs'. InitializeRmseBoosting_write dbg d g r s p xs = Inr (Continues (s', p', xs')) \<and>
               counts_boosting xs' = counts_boosting xs \<and> at_entry xs' s' p' \<and>
               entry_index xs' s' p' = ?pos + Suc 0 \<and>
               gradients_boosting xs' = take ?pos ?F @ replicate (Suc 0) g @ drop (?pos + Suc 0) ?F"
          using w c1 cont(1,2) g1 by auto
      next
        assume "length ?F \<le> ?pos + Suc 0"
        with pl1 show "\<exists>xs'. InitializeRmseBoosting_write dbg d g r s p xs = Inr (Returned xs') \<and>
               counts_boosting xs' = counts_boosting xs \<and>
               gradients_boosting xs' = take ?pos ?F @ replicate (length ?F - ?pos) g"
          by simp
      qed
    next
      case False
      then have w: "InitializeRmseBoosting_write dbg d g r s p xs =
          InitializeRmseBoosting_write dbg d g (r - d) s1 p1 xs1"
        using cont(3) z by simp
      have sign': "(0 < r - d \<and> d = 1) \<or> (r - d < 0 \<and> d = - 1)"
        using Suc.prems(3) m False by auto
      note IH = Suc.hyps(1) [OF m [symmetric] cont(1) ne1 sign', unfolded m cont(2) F1 c1 length_list_update]
      have dr: "drop (?pos + 1 + m) (?F[?pos := g]) = drop (?pos + 1 + m) ?F"
        by simp
      have r1: "take ?pos ?F @ [g] @ replicate m g = take ?pos ?F @ replicate (Suc m) g"
        by simp
      show ?thesis
      proof (intro conjI impI)
        assume a: "?pos + nat \<bar>r\<bar> < length ?F"
        then have "?pos + 1 + m < length ?F" using n by simp
        with IH obtain s' p' xs' where
          "InitializeRmseBoosting_write dbg d g (r - d) s1 p1 xs1 = Inr (Continues (s', p', xs'))"
          "counts_boosting xs' = counts_boosting xs" "at_entry xs' s' p'"
          "entry_index xs' s' p' = ?pos + 1 + m"
          "gradients_boosting xs' = take (?pos + 1) (?F[?pos := g]) @ replicate m g @
             drop (?pos + 1 + m) (?F[?pos := g])"
          by blast
        then show "\<exists>s' p' xs'. InitializeRmseBoosting_write dbg d g r s p xs = Inr (Continues (s', p', xs')) \<and>
               counts_boosting xs' = counts_boosting xs \<and> at_entry xs' s' p' \<and>
               entry_index xs' s' p' = ?pos + nat \<bar>r\<bar> \<and>
               gradients_boosting xs' = take ?pos ?F @ replicate (nat \<bar>r\<bar>) g @ drop (?pos + nat \<bar>r\<bar>) ?F"
          unfolding w n tk dr by (intro exI [of _ s'] exI [of _ p'] exI [of _ xs']) simp
      next
        assume a: "length ?F \<le> ?pos + nat \<bar>r\<bar>"
        then have "length ?F \<le> ?pos + 1 + m" using n by simp
        with IH obtain xs' where
          "InitializeRmseBoosting_write dbg d g (r - d) s1 p1 xs1 = Inr (Returned xs')"
          "counts_boosting xs' = counts_boosting xs"
          "gradients_boosting xs' = take (?pos + 1) (?F[?pos := g]) @
             replicate (length ?F - (?pos + 1)) g"
          by blast
        moreover have "[g] @ replicate (length ?F - (?pos + 1)) g = replicate (length ?F - ?pos) g"
          using pl by (rule t4)
        ultimately show "\<exists>xs'. InitializeRmseBoosting_write dbg d g r s p xs = Inr (Returned xs') \<and>
               counts_boosting xs' = counts_boosting xs \<and>
               gradients_boosting xs' = take ?pos ?F @ replicate (length ?F - ?pos) g"
          unfolding w tk by (intro exI [of _ xs']) simp
      qed
    qed
  qed
qed

lemma InitializeRmseBoosting_skip_finds:
  assumes "replicated_gradients v g (drop i bag) i j n \<noteq> []"
  shows "\<exists>i'. i \<le> i' \<and> i' < length bag \<and> bag ! i' \<noteq> 0 \<and>
           InitializeRmseBoosting_skip bag i t = Inr (bag ! i', i' + 1, t + (i' + 1 - i)) \<and>
           replicated_gradients v g (drop i bag) i j n = replicated_gradients v g (drop i' bag) i' j n \<and>
           length (filter (\<lambda>r. r \<noteq> 0) (drop i bag)) = length (filter (\<lambda>r. r \<noteq> 0) (drop i' bag))"
  using assms
proof (induction "length bag - i" arbitrary: i t)
  case 0
  then show ?case by simp
next
  case (Suc m)
  then have i: "i < length bag" by simp
  then have d: "drop i bag = bag ! i # drop (Suc i) bag" by (simp add: Cons_nth_drop_Suc)
  show ?case
  proof (cases "bag ! i = 0")
    case True
    have m: "m = length bag - (i + 1)" using Suc.hyps(2) by simp
    have s: "replicated_gradients v g (drop i bag) i j n =
             replicated_gradients v g (drop (i + 1) bag) (i + 1) j n"
      using True by (simp add: d)
    with Suc.prems have "replicated_gradients v g (drop (i + 1) bag) (i + 1) j n \<noteq> []" by simp
    from Suc.hyps(1) [OF m this, of "t + 1"] obtain i' where i':
      "i + 1 \<le> i'" "i' < length bag" "bag ! i' \<noteq> 0"
      "InitializeRmseBoosting_skip bag (i + 1) (t + 1) = Inr (bag ! i', i' + 1, t + 1 + (i' + 1 - (i + 1)))"
      "replicated_gradients v g (drop (i + 1) bag) (i + 1) j n = replicated_gradients v g (drop i' bag) i' j n"
      "length (filter (\<lambda>r. r \<noteq> 0) (drop (i + 1) bag)) = length (filter (\<lambda>r. r \<noteq> 0) (drop i' bag))"
      by blast
    have "InitializeRmseBoosting_skip bag i t = InitializeRmseBoosting_skip bag (i + 1) (t + 1)"
      using i True by (subst InitializeRmseBoosting_skip.simps) (simp add: Let_def)
    moreover have "t + 1 + (i' + 1 - (i + 1)) = t + (i' + 1 - i)" using i'(1) by simp
    moreover have "length (filter (\<lambda>r. r \<noteq> 0) (drop i bag)) = length (filter (\<lambda>r. r \<noteq> 0) (drop (i + 1) bag))"
      using True by (simp add: d)
    ultimately show ?thesis using i' s
      by (intro exI [of _ i']) simp
  next
    case False
    have "InitializeRmseBoosting_skip bag i t = Inr (bag ! i, i + 1, t + 1)"
      using i False by (subst InitializeRmseBoosting_skip.simps) (simp add: Let_def)
    with i False show ?thesis
      by (intro exI [of _ i]) simp
  qed
qed

lemma InitializeRmseBoosting_next_finds:
  assumes "replicated_gradients v g (drop i bag) i j n \<noteq> []"
  shows "\<exists>i' a. i \<le> i' \<and> i' < length bag \<and> bag_selects v (bag ! i') \<and>
           InitializeRmseBoosting_next v bag i t c = Inr (bag ! i', i' + 1, t + (i' + 1 - i), c + a + 1) \<and>
           replicated_gradients v g (drop i bag) i j n =
             replicate (nat \<bar>bag ! i'\<bar>) (g i' (j + a) n) @
             replicated_gradients v g (drop (i' + 1) bag) (i' + 1) (j + a + 1) (n + nat \<bar>bag ! i'\<bar>) \<and>
           a + 1 + length (filter (\<lambda>r. r \<noteq> 0) (drop (i' + 1) bag)) =
             length (filter (\<lambda>r. r \<noteq> 0) (drop i bag))"
  using assms
proof (induction "length bag - i" arbitrary: i t c j rule: less_induct)
  case less
  from InitializeRmseBoosting_skip_finds [OF less.prems, of t] obtain i1 where i1:
    "i \<le> i1" "i1 < length bag" "bag ! i1 \<noteq> 0"
    "InitializeRmseBoosting_skip bag i t = Inr (bag ! i1, i1 + 1, t + (i1 + 1 - i))"
    "replicated_gradients v g (drop i bag) i j n = replicated_gradients v g (drop i1 bag) i1 j n"
    "length (filter (\<lambda>r. r \<noteq> 0) (drop i bag)) = length (filter (\<lambda>r. r \<noteq> 0) (drop i1 bag))"
    by blast
  have d: "drop i1 bag = bag ! i1 # drop (Suc i1) bag" using i1(2) by (simp add: Cons_nth_drop_Suc)
  have f: "length (filter (\<lambda>r. r \<noteq> 0) (drop i bag)) = 1 + length (filter (\<lambda>r. r \<noteq> 0) (drop (i1 + 1) bag))"
    using i1(3,6) by (simp add: d)
  show ?case
  proof (cases "bag_selects v (bag ! i1)")
    case True
    then have "v = (bag ! i1 < 0)" by (auto simp: bag_selects_def)
    then have "InitializeRmseBoosting_next v bag i t c = Inr (bag ! i1, i1 + 1, t + (i1 + 1 - i), c + 1)"
      by (subst InitializeRmseBoosting_next.simps) (simp add: i1(4) Let_def)
    moreover have "replicated_gradients v g (drop i bag) i j n =
        replicate (nat \<bar>bag ! i1\<bar>) (g i1 j n) @
        replicated_gradients v g (drop (i1 + 1) bag) (i1 + 1) (j + 1) (n + nat \<bar>bag ! i1\<bar>)"
      using True i1(3) by (simp add: i1(5) d)
    ultimately show ?thesis using i1(1,2) True f
      by (intro exI [of _ i1] exI [of _ 0]) simp
  next
    case False
    then have "v \<noteq> (bag ! i1 < 0)" using i1(3) by (auto simp: bag_selects_def)
    then have nx: "InitializeRmseBoosting_next v bag i t c =
        InitializeRmseBoosting_next v bag (i1 + 1) (t + (i1 + 1 - i)) (c + 1)"
      by (subst InitializeRmseBoosting_next.simps) (simp add: i1(4) Let_def)
    have s: "replicated_gradients v g (drop i bag) i j n =
        replicated_gradients v g (drop (i1 + 1) bag) (i1 + 1) (j + 1) n"
      using False i1(3) by (simp add: i1(5) d)
    with less.prems have ne: "replicated_gradients v g (drop (i1 + 1) bag) (i1 + 1) (j + 1) n \<noteq> []" by simp
    have lt: "length bag - (i1 + 1) < length bag - i" using i1(1,2) by simp
    have IH: "\<exists>i' a. i1 + 1 \<le> i' \<and> i' < length bag \<and> bag_selects v (bag ! i') \<and>
           InitializeRmseBoosting_next v bag (i1 + 1) (t + (i1 + 1 - i)) (c + 1) =
             Inr (bag ! i', i' + 1, t + (i1 + 1 - i) + (i' + 1 - (i1 + 1)), c + 1 + a + 1) \<and>
           replicated_gradients v g (drop (i1 + 1) bag) (i1 + 1) (j + 1) n =
             replicate (nat \<bar>bag ! i'\<bar>) (g i' (j + 1 + a) n) @
             replicated_gradients v g (drop (i' + 1) bag) (i' + 1) (j + 1 + a + 1) (n + nat \<bar>bag ! i'\<bar>) \<and>
           a + 1 + length (filter (\<lambda>r. r \<noteq> 0) (drop (i' + 1) bag)) =
             length (filter (\<lambda>r. r \<noteq> 0) (drop (i1 + 1) bag))"
      by (rule less.hyps [OF lt ne])
    then obtain i' a where ia: "i1 + 1 \<le> i'" "i' < length bag" "bag_selects v (bag ! i')"
      "InitializeRmseBoosting_next v bag (i1 + 1) (t + (i1 + 1 - i)) (c + 1) =
             Inr (bag ! i', i' + 1, t + (i1 + 1 - i) + (i' + 1 - (i1 + 1)), c + 1 + a + 1)"
      "replicated_gradients v g (drop (i1 + 1) bag) (i1 + 1) (j + 1) n =
             replicate (nat \<bar>bag ! i'\<bar>) (g i' (j + 1 + a) n) @
             replicated_gradients v g (drop (i' + 1) bag) (i' + 1) (j + 1 + a + 1) (n + nat \<bar>bag ! i'\<bar>)"
      "a + 1 + length (filter (\<lambda>r. r \<noteq> 0) (drop (i' + 1) bag)) =
             length (filter (\<lambda>r. r \<noteq> 0) (drop (i1 + 1) bag))"
      by blast
    have t: "t + (i1 + 1 - i) + (i' + 1 - (i1 + 1)) = t + (i' + 1 - i)" using ia(1) i1(1) by simp
    show ?thesis
      using ia i1(1) f
      by (intro exI [of _ i'] exI [of _ "a + 1"]) (simp add: nx s t add.assoc)
  qed
qed

lemma InitializeRmseBoosting_loop_writes:
  fixes xs :: "('f :: {zero, minus}) DataSubsetBoosting list"
  defines "G \<equiv> \<lambda>conv T I (i :: nat) (j :: nat) (n :: nat). rmse_gradient conv T I i j"
  assumes at: "at_entry xs s p"
    and ne: "list_all (\<lambda>x. m_aGradHessBoosting x \<noteq> []) xs"
    and dir: "(d = 1 \<and> \<not> v) \<or> (d = - 1 \<and> v)"
    and cap: "length (gradients_boosting xs) - entry_index xs s p \<le>
              length (replicated_gradients v (G conv T I) (drop i bag) i j n)"
    and tg: "length bag \<le> length T"
    and sc: "case I of None \<Rightarrow> True
             | Some scores \<Rightarrow> q = j \<and> j + length (filter (\<lambda>r. r \<noteq> 0) (drop i bag)) \<le> length scores"
  shows "\<exists>xs'. InitializeRmseBoosting_loop dbg conv d v T (Some bag) I i i q s p xs = Inr xs' \<and>
           counts_boosting xs' = counts_boosting xs \<and>
           gradients_boosting xs' =
             take (entry_index xs s p) (gradients_boosting xs) @
             take (length (gradients_boosting xs) - entry_index xs s p)
               (replicated_gradients v (G conv T I) (drop i bag) i j n)"
  using at ne cap sc
proof (induction "length bag - i" arbitrary: i j q n s p xs rule: less_induct)
  case less
  let ?F = "gradients_boosting xs"
  let ?pos = "entry_index xs s p"
  let ?R = "replicated_gradients v (G conv T I) (drop i bag) i j n"
  have pl: "?pos < length ?F" by (rule entry_index_less [OF less.prems(1)])
  with less.prems(3) have "?R \<noteq> []" by auto
  from InitializeRmseBoosting_next_finds [OF this, of i 1] obtain i' a where ia:
    "i \<le> i'" "i' < length bag" "bag_selects v (bag ! i')"
    "InitializeRmseBoosting_next v bag i i 1 = Inr (bag ! i', i' + 1, i + (i' + 1 - i), 1 + a + 1)"
    "?R = replicate (nat \<bar>bag ! i'\<bar>) (G conv T I i' (j + a) n) @
          replicated_gradients v (G conv T I) (drop (i' + 1) bag) (i' + 1) (j + a + 1) (n + nat \<bar>bag ! i'\<bar>)"
    "a + 1 + length (filter (\<lambda>r. r \<noteq> 0) (drop (i' + 1) bag)) =
       length (filter (\<lambda>r. r \<noteq> 0) (drop i bag))"
    by blast
  let ?r = "bag ! i'"
  let ?m = "nat \<bar>?r\<bar>"
  let ?g = "G conv T I i' (j + a) n"
  let ?R' = "replicated_gradients v (G conv T I) (drop (i' + 1) bag) (i' + 1) (j + a + 1) (n + ?m)"
  have it: "i' < length T" using ia(2) tg by simp
  have sign: "(0 < ?r \<and> d = 1) \<or> (?r < 0 \<and> d = - 1)"
    using ia(3) dir by (auto simp: bag_selects_def)
  have ia4: "InitializeRmseBoosting_next v bag i i (Suc 0) = Inr (?r, Suc i', Suc i', Suc (Suc a))"
    using ia(4) ia(1) by simp
  have unf: "InitializeRmseBoosting_loop dbg conv d v T (Some bag) I i i q s p xs =
      (case InitializeRmseBoosting_write dbg d ?g ?r s p xs of
         Inl e \<Rightarrow> Inl e
       | Inr (Returned aSubsets') \<Rightarrow> Inr aSubsets'
       | Inr (Continues (pSubset', pGradientAndHessian', aSubsets')) \<Rightarrow>
           InitializeRmseBoosting_loop dbg conv d v T (Some bag) I (i' + 1) (i' + 1)
             (case I of None \<Rightarrow> q | Some scores \<Rightarrow> q + a + 1) pSubset' pGradientAndHessian' aSubsets')"
  proof (cases I)
    case None
    have "ComputeGradientRegressionRmseInit 0 (T ! i') = ?g"
      by (simp add: G_def rmse_gradient_def ComputeGradientRegressionRmseInit_def None)
    then show ?thesis
      using it unfolding None by (subst InitializeRmseBoosting_loop.simps)
        (simp add: ia4 Let_def cong: sum.case_cong flow.case_cong)
  next
    case (Some scores)
    have b: "q + a < length scores" "q = j" using less.prems(4) ia(6) Some by simp_all
    have "ComputeGradientRegressionRmseInit (conv (scores ! (j + a))) (T ! i') = ?g"
      by (simp add: G_def rmse_gradient_def ComputeGradientRegressionRmseInit_def Some)
    then show ?thesis
      using it b unfolding Some by (subst InitializeRmseBoosting_loop.simps)
        (simp add: ia4 Let_def cong: sum.case_cong flow.case_cong)
  qed
  note W = InitializeRmseBoosting_write_loop [OF less.prems(1,2) sign, of dbg ?g]
  show ?case
  proof (cases "?pos + ?m < length ?F")
    case True
    with W obtain s' p' xs' where w:
      "InitializeRmseBoosting_write dbg d ?g ?r s p xs = Inr (Continues (s', p', xs'))"
      "counts_boosting xs' = counts_boosting xs" "at_entry xs' s' p'"
      "entry_index xs' s' p' = ?pos + ?m"
      "gradients_boosting xs' = take ?pos ?F @ replicate ?m ?g @ drop (?pos + ?m) ?F"
      by blast
    have lt: "length bag - (i' + 1) < length bag - i" using ia(1,2) by simp
    have L': "length (gradients_boosting xs') = length ?F"
      by (rule length_gradients_counts [OF w(2)])
    have lR: "length ?R = ?m + length ?R'" by (subst ia(5)) simp
    have cap': "length (gradients_boosting xs') - entry_index xs' s' p' \<le> length ?R'"
      using less.prems(3) True lR unfolding L' w(4) by linarith
    have sc': "case I of None \<Rightarrow> True
             | Some scores \<Rightarrow> (case I of None \<Rightarrow> q | Some scores \<Rightarrow> q + a + 1) = j + a + 1 \<and>
                 (j + a + 1) + length (filter (\<lambda>r. r \<noteq> 0) (drop (i' + 1) bag)) \<le> length scores"
      using less.prems(4) ia(6) by (auto split: option.splits)
    have "\<exists>xs''. InitializeRmseBoosting_loop dbg conv d v T (Some bag) I (i' + 1) (i' + 1)
             (case I of None \<Rightarrow> q | Some scores \<Rightarrow> q + a + 1) s' p' xs' = Inr xs'' \<and>
           counts_boosting xs'' = counts_boosting xs' \<and>
           gradients_boosting xs'' =
             take (entry_index xs' s' p') (gradients_boosting xs') @
             take (length (gradients_boosting xs') - entry_index xs' s' p') ?R'"
      by (rule less.hyps [OF lt w(3) nonempty_counts [OF less.prems(2) w(2)] cap' sc'])
    then obtain xs'' where r:
      "InitializeRmseBoosting_loop dbg conv d v T (Some bag) I (i' + 1) (i' + 1)
             (case I of None \<Rightarrow> q | Some scores \<Rightarrow> q + a + 1) s' p' xs' = Inr xs''"
      "counts_boosting xs'' = counts_boosting xs'"
      "gradients_boosting xs'' =
             take (entry_index xs' s' p') (gradients_boosting xs') @
             take (length (gradients_boosting xs') - entry_index xs' s' p') ?R'"
      by blast
    have tk: "take (?pos + ?m) (gradients_boosting xs') = take ?pos ?F @ replicate ?m ?g"
      using True pl unfolding w(5) by simp
    have "gradients_boosting xs'' = take ?pos ?F @ replicate ?m ?g @ take (length ?F - (?pos + ?m)) ?R'"
      using r(3) unfolding w(4) L' tk by simp
    also have "replicate ?m ?g @ take (length ?F - (?pos + ?m)) ?R' = take (length ?F - ?pos) ?R"
      using True unfolding ia(5) by simp
    finally have "gradients_boosting xs'' = take ?pos ?F @ take (length ?F - ?pos) ?R" .
    then show ?thesis
      using unf w(1,2) r(1,2) by simp
  next
    case False
    with W obtain xs' where w:
      "InitializeRmseBoosting_write dbg d ?g ?r s p xs = Inr (Returned xs')"
      "counts_boosting xs' = counts_boosting xs"
      "gradients_boosting xs' = take ?pos ?F @ replicate (length ?F - ?pos) ?g"
      by (metis not_less)
    have "replicate (length ?F - ?pos) ?g = take (length ?F - ?pos) ?R"
      using False unfolding ia(5) by (simp add: min_def)
    then show ?thesis
      using unf w by simp
  qed
qed

section \<open>The interaction initializer writes the weighted gradients of the positive counts\<close>

lemma InitializeRmseInteraction_next_boosting:
  "InitializeRmseInteraction_next aBag p t c = InitializeRmseBoosting_next False aBag p t c"
proof (induction aBag p t c rule: InitializeRmseInteraction_next.induct)
  case (1 aBag p t c)
  show ?case
  proof (cases "InitializeRmseInteraction_skip aBag p t")
    case (Inl e)
    then show ?thesis
      by (subst InitializeRmseInteraction_next.simps, subst InitializeRmseBoosting_next.simps)
        (simp add: InitializeRmseInteraction_skip_boosting [symmetric])
  next
    case (Inr x)
    obtain r p' t' where x: "x = (r, p', t')" by (cases x) auto
    show ?thesis
    proof (cases "r < 0")
      case True
      have "InitializeRmseInteraction_next aBag p' t' (c + 1) = InitializeRmseBoosting_next False aBag p' t' (c + 1)"
        using "1.IH" [OF Inr, of r "(p', t')" p' t' "c + 1"] x True by simp
      with Inr x True show ?thesis
        by (subst InitializeRmseInteraction_next.simps, subst InitializeRmseBoosting_next.simps)
          (simp add: InitializeRmseInteraction_skip_boosting [symmetric] Let_def)
    next
      case False
      with Inr x show ?thesis
        by (subst InitializeRmseInteraction_next.simps, subst InitializeRmseBoosting_next.simps)
          (simp add: InitializeRmseInteraction_skip_boosting [symmetric] Let_def)
    qed
  qed
qed

lemma gradients_interaction_boosting:
  "gradients_boosting (map boosting_of xs) = gradients_interaction xs"
  by (simp add: gradients_boosting_def gradients_interaction_def comp_def)

lemma counts_interaction_boosting:
  "counts_boosting (map boosting_of xs) = counts_interaction xs"
  by (simp add: counts_boosting_def counts_interaction_def comp_def)

lemma weights_write:
  "map m_aWeightsInteraction (xs[s := (xs ! s)\<lparr>m_aGradHessInteraction := b\<rparr>]) = map m_aWeightsInteraction xs"
proof (cases "s < length xs")
  case True
  then show ?thesis by (simp add: map_update list_update_same_conv)
next
  case False
  then show ?thesis by (simp add: list_update_beyond)
qed

lemma GetWeights_write:
  "GetWeights (xs[s := (xs ! s)\<lparr>m_aGradHessInteraction := b\<rparr>] ! k) = GetWeights (xs ! k)"
proof (cases "s < length xs")
  case True
  then show ?thesis by (cases "k = s") (simp_all add: GetWeights_def)
next
  case False
  then show ?thesis by (simp add: list_update_beyond)
qed

text \<open>The write loop leaves the weights, and \<open>pWeight\<close> is that of the last subset it went on to.\<close>

lemma InitializeRmseInteraction_write_weights:
  "InitializeRmseInteraction_write dbg g r s p w xs = Inr res \<Longrightarrow>
   (case res of
      Returned xs' \<Rightarrow> map m_aWeightsInteraction xs' = map m_aWeightsInteraction xs
    | Continues (s', p', w', xs') \<Rightarrow>
        map m_aWeightsInteraction xs' = map m_aWeightsInteraction xs \<and> s \<le> s' \<and>
        w' = (if s' = s then w else GetWeights (xs ! s')))"
proof (induction dbg g r s p w xs rule: InitializeRmseInteraction_write.induct)
  case (1 dbg g r s p w xs)
  note prem = "1.prems" [unfolded InitializeRmseInteraction_write.simps [of dbg g r s p w xs]]
  let ?buf = "m_aGradHessInteraction (xs ! s)"
  let ?w = "xs[s := (xs ! s)\<lparr>m_aGradHessInteraction := ?buf[p := g]\<rparr>]"
  from prem have s: "\<not> length xs \<le> s" and e: "\<not> length ?buf \<le> p"
    by (auto split: if_splits)
  note ww = weights_write [of xs s "?buf[p := g]"]
  note gw = GetWeights_write [of xs s "?buf[p := g]"]
  show ?case
  proof (cases "length ?buf = p + 1")
    case True
    show ?thesis
    proof (cases "length xs = s + 1")
      case last: True
      with prem s e True have "res = Returned ?w" by (auto simp: Let_def)
      then show ?thesis by (simp add: ww)
    next
      case more: False
      with prem s e True have a: "\<not> (dbg \<and> \<not> 1 \<le> length (m_aGradHessInteraction (?w ! (s + 1))))"
        by (auto simp: Let_def split: if_splits)
      show ?thesis
      proof (cases "0 \<noteq> r - 1")
        case r: True
        with prem s e True more a
        have "InitializeRmseInteraction_write dbg g (r - 1) (s + 1) 0 (GetWeights (?w ! (s + 1))) ?w = Inr res"
          by (auto simp: Let_def split: if_splits)
        from "1.IH"(1) [OF s e refl refl True refl more a refl refl r this]
        show ?thesis
          by (cases res) (auto simp: ww gw)
      next
        case r: False
        with prem s e True more a
        have "res = Continues (s + 1, 0, GetWeights (?w ! (s + 1)), ?w)"
          by (auto simp: Let_def split: if_splits)
        then show ?thesis by (simp add: ww gw)
      qed
    qed
  next
    case ne: False
    show ?thesis
    proof (cases "0 \<noteq> r - 1")
      case r: True
      with prem s e ne
      have "InitializeRmseInteraction_write dbg g (r - 1) s (p + 1) w ?w = Inr res"
        by (simp add: Let_def)
      from "1.IH"(2) [OF s e refl refl ne refl r this]
      show ?thesis
        by (cases res) (auto simp: ww gw)
    next
      case r: False
      with prem s e ne have "res = Continues (s, p + 1, w, ?w)"
        by (auto simp: Let_def)
      then show ?thesis by (simp add: ww)
    qed
  qed
qed

text \<open>The write loop, from the first entry of a sample to the entry after its last.\<close>

lemma InitializeRmseInteraction_write_loop:
  fixes xs :: "'f DataSubsetInteraction list" and g :: 'f
  assumes at: "at_entry (map boosting_of xs) s p"
    and ne: "list_all (\<lambda>x. m_aGradHessInteraction x \<noteq> []) xs"
    and r: "0 < r"
  defines "pos \<equiv> entry_index (map boosting_of xs) s p"
  shows "(pos + nat r < length (gradients_interaction xs) \<longrightarrow>
            (\<exists>s' p' w' xs'. InitializeRmseInteraction_write dbg g r s p w xs = Inr (Continues (s', p', w', xs')) \<and>
               counts_interaction xs' = counts_interaction xs \<and>
               map m_aWeightsInteraction xs' = map m_aWeightsInteraction xs \<and>
               at_entry (map boosting_of xs') s' p' \<and>
               entry_index (map boosting_of xs') s' p' = pos + nat r \<and>
               s \<le> s' \<and> w' = (if s' = s then w else GetWeights (xs ! s')) \<and>
               gradients_interaction xs' =
                 take pos (gradients_interaction xs) @ replicate (nat r) g @
                 drop (pos + nat r) (gradients_interaction xs))) \<and>
         (length (gradients_interaction xs) \<le> pos + nat r \<longrightarrow>
            (\<exists>xs'. InitializeRmseInteraction_write dbg g r s p w xs = Inr (Returned xs') \<and>
               counts_interaction xs' = counts_interaction xs \<and>
               map m_aWeightsInteraction xs' = map m_aWeightsInteraction xs \<and>
               gradients_interaction xs' =
                 take pos (gradients_interaction xs) @
                 replicate (length (gradients_interaction xs) - pos) g))"
proof -
  have ne': "list_all (\<lambda>x. m_aGradHessBoosting x \<noteq> []) (map boosting_of xs)"
    using ne by (simp add: list_all_iff)
  have sign: "(0 < r \<and> (1 :: int) = 1) \<or> (r < 0 \<and> (1 :: int) = - 1)" using r by simp
  have m: "nat \<bar>r\<bar> = nat r" using r by simp
  note B = InitializeRmseBoosting_write_loop [OF at ne' sign, of dbg g,
      unfolded InitializeRmseInteraction_write_boosting [of dbg g r s p xs w] m
        gradients_interaction_boosting counts_interaction_boosting, folded pos_def]
  show ?thesis
  proof (intro conjI impI)
    assume "pos + nat r < length (gradients_interaction xs)"
    with B obtain s' p' ys where b:
      "forget_weights (InitializeRmseInteraction_write dbg g r s p w xs) = Inr (Continues (s', p', ys))"
      "counts_boosting ys = counts_interaction xs" "at_entry ys s' p'"
      "entry_index ys s' p' = pos + nat r"
      "gradients_boosting ys = take pos (gradients_interaction xs) @ replicate (nat r) g @
         drop (pos + nat r) (gradients_interaction xs)"
      by blast
    from b(1) obtain w' xs' where i:
      "InitializeRmseInteraction_write dbg g r s p w xs = Inr (Continues (s', p', w', xs'))"
      "ys = map boosting_of xs'"
      by (auto simp: forget_weights_def split: sum.splits flow.splits)
    from InitializeRmseInteraction_write_weights [OF i(1)]
    have "map m_aWeightsInteraction xs' = map m_aWeightsInteraction xs" "s \<le> s'"
      "w' = (if s' = s then w else GetWeights (xs ! s'))"
      by simp_all
    with b(2-5) i show "\<exists>s' p' w' xs'.
        InitializeRmseInteraction_write dbg g r s p w xs = Inr (Continues (s', p', w', xs')) \<and>
        counts_interaction xs' = counts_interaction xs \<and>
        map m_aWeightsInteraction xs' = map m_aWeightsInteraction xs \<and>
        at_entry (map boosting_of xs') s' p' \<and>
        entry_index (map boosting_of xs') s' p' = pos + nat r \<and>
        s \<le> s' \<and> w' = (if s' = s then w else GetWeights (xs ! s')) \<and>
        gradients_interaction xs' =
          take pos (gradients_interaction xs) @ replicate (nat r) g @
          drop (pos + nat r) (gradients_interaction xs)"
      by (intro exI [of _ s'] exI [of _ p'] exI [of _ w'] exI [of _ xs'])
        (simp add: gradients_interaction_boosting counts_interaction_boosting)
  next
    assume "length (gradients_interaction xs) \<le> pos + nat r"
    with B obtain ys where b:
      "forget_weights (InitializeRmseInteraction_write dbg g r s p w xs) = Inr (Returned ys)"
      "counts_boosting ys = counts_interaction xs"
      "gradients_boosting ys = take pos (gradients_interaction xs) @
         replicate (length (gradients_interaction xs) - pos) g"
      by blast
    from b(1) obtain xs' where i:
      "InitializeRmseInteraction_write dbg g r s p w xs = Inr (Returned xs')"
      "ys = map boosting_of xs'"
      by (auto simp: forget_weights_def split: sum.splits flow.splits)
    from InitializeRmseInteraction_write_weights [OF i(1)]
    have "map m_aWeightsInteraction xs' = map m_aWeightsInteraction xs" by simp
    with b(2,3) i show "\<exists>xs'. InitializeRmseInteraction_write dbg g r s p w xs = Inr (Returned xs') \<and>
        counts_interaction xs' = counts_interaction xs \<and>
        map m_aWeightsInteraction xs' = map m_aWeightsInteraction xs \<and>
        gradients_interaction xs' =
          take pos (gradients_interaction xs) @ replicate (length (gradients_interaction xs) - pos) g"
      by (intro exI [of _ xs'])
        (simp add: gradients_interaction_boosting counts_interaction_boosting)
  qed
qed

lemma replicated_gradients_length:
  "length (replicated_gradients v g bag i j n) = length (replicated_gradients v g' bag i' j' n')"
  by (induction bag arbitrary: i j n i' j' n') auto

lemma entry_index_mono:
  assumes "at_entry ys s p" and "s < s'"
  shows "entry_index ys s p < entry_index ys s' 0"
proof -
  from assms(1) have s: "s < length ys" and p: "p < length (m_aGradHessBoosting (ys ! s))"
    by (simp_all add: at_entry_def)
  have l: "s < length (take s' ys)" using s assms(2) by simp
  have "take s (take s' ys) = take s ys" using assms(2) by (simp add: min_def)
  moreover have "take s' ys ! s = ys ! s" using assms(2) by simp
  ultimately have "gradients_boosting (take s' ys) =
      gradients_boosting (take s ys) @ m_aGradHessBoosting (ys ! s) @
      gradients_boosting (drop (Suc s) (take s' ys))"
    using gradients_boosting_split [OF l] by simp
  then show ?thesis using p by (simp add: entry_index_def)
qed

lemma subset_start_entry:
  "subset_start xs s = entry_index (map boosting_of xs) s 0"
  by (simp add: subset_start_def entry_index_def take_map gradients_interaction_boosting)

text \<open>The weight that \<open>pWeight\<close> points to, when it is at the entry that is written next.\<close>

lemma weights_interaction_entry:
  assumes at: "at_entry (map boosting_of xs) s p"
    and wl: "list_all (\<lambda>s. case m_aWeightsInteraction s of
                              None \<Rightarrow> True
                            | Some ws \<Rightarrow> length ws = length (m_aGradHessInteraction s)) xs"
  shows "weights_interaction xs ! entry_index (map boosting_of xs) s p =
           (case m_aWeightsInteraction (xs ! s) of None \<Rightarrow> None | Some ws \<Rightarrow> Some (ws ! p))"
    and "m_aWeightsInteraction (xs ! s) = Some ws \<Longrightarrow> p < length ws"
proof -
  define f :: "'a DataSubsetInteraction \<Rightarrow> 'a option list" where
    "f = (\<lambda>s. case m_aWeightsInteraction s of
                None \<Rightarrow> replicate (length (m_aGradHessInteraction s)) None
              | Some ws \<Rightarrow> map Some ws)"
  from at have s: "s < length xs" and p: "p < length (m_aGradHessInteraction (xs ! s))"
    by (auto simp: at_entry_def)
  have fl: "length (f x) = length (m_aGradHessInteraction x)" if "x \<in> set xs" for x
    using wl that by (auto simp: f_def list_all_iff split: option.splits)
  have cl: "length (concat (map f zs)) = length (concat (map m_aGradHessInteraction zs))"
    if "set zs \<subseteq> set xs" for zs
    using that by (induction zs) (simp_all add: fl)
  have "xs = take s xs @ xs ! s # drop (Suc s) xs"
    using s by (simp add: id_take_nth_drop [symmetric])
  then have "weights_interaction xs = concat (map f (take s xs @ xs ! s # drop (Suc s) xs))"
    by (simp add: weights_interaction_def f_def)
  then have w: "weights_interaction xs =
      concat (map f (take s xs)) @ f (xs ! s) @ concat (map f (drop (Suc s) xs))"
    by simp
  have "length (concat (map f (take s xs))) = length (concat (map m_aGradHessInteraction (take s xs)))"
    by (rule cl) (rule set_take_subset)
  then have e: "entry_index (map boosting_of xs) s p = length (concat (map f (take s xs))) + p"
    by (simp add: entry_index_def take_map gradients_interaction_boosting gradients_interaction_def)
  have xm: "xs ! s \<in> set xs" using s by simp
  have pf: "p < length (f (xs ! s))" using p fl [OF xm] by simp
  have "weights_interaction xs ! entry_index (map boosting_of xs) s p = f (xs ! s) ! p"
    unfolding w e using pf by (simp add: nth_append)
  also have "\<dots> = (case m_aWeightsInteraction (xs ! s) of None \<Rightarrow> None | Some ws \<Rightarrow> Some (ws ! p))"
    using p pf by (auto simp: f_def split: option.splits)
  finally show "weights_interaction xs ! entry_index (map boosting_of xs) s p =
           (case m_aWeightsInteraction (xs ! s) of None \<Rightarrow> None | Some ws \<Rightarrow> Some (ws ! p))" .
  show "p < length ws" if "m_aWeightsInteraction (xs ! s) = Some ws"
    using pf that by (simp add: f_def)
qed

text \<open>The next sample with a positive replication count, and the gradients from it on.\<close>

lemma InitializeRmseInteraction_next_finds:
  assumes "replicated_gradients False g (drop i bag) i j n \<noteq> []"
  shows "\<exists>i' a. i \<le> i' \<and> i' < length bag \<and> 0 < bag ! i' \<and>
           InitializeRmseInteraction_next bag i i 1 = Inr (bag ! i', Suc i', Suc i', Suc (Suc a)) \<and>
           replicated_gradients False g (drop i bag) i j n =
             replicate (nat (bag ! i')) (g i' (j + a) n) @
             replicated_gradients False g (drop (i' + 1) bag) (i' + 1) (j + a + 1) (n + nat (bag ! i')) \<and>
           replicated_gradients False (\<lambda>i j n. n) (drop i bag) i j n =
             replicate (nat (bag ! i')) n @
             replicated_gradients False (\<lambda>i j n. n) (drop (i' + 1) bag) (i' + 1) (j + a + 1) (n + nat (bag ! i')) \<and>
           a + 1 + length (filter (\<lambda>r. r \<noteq> 0) (drop (i' + 1) bag)) =
             length (filter (\<lambda>r. r \<noteq> 0) (drop i bag))"
proof -
  let ?N = "replicated_gradients False (\<lambda>i j n. n) (drop i bag) i j n"
  have "length ?N = length (replicated_gradients False g (drop i bag) i j n)"
    by (rule replicated_gradients_length)
  with assms have nn: "?N \<noteq> []" by auto
  from InitializeRmseBoosting_next_finds [OF assms, of i 1] obtain i' a where ia:
    "i \<le> i'" "i' < length bag" "bag_selects False (bag ! i')"
    "InitializeRmseBoosting_next False bag i i 1 = Inr (bag ! i', i' + 1, i + (i' + 1 - i), 1 + a + 1)"
    "replicated_gradients False g (drop i bag) i j n =
       replicate (nat \<bar>bag ! i'\<bar>) (g i' (j + a) n) @
       replicated_gradients False g (drop (i' + 1) bag) (i' + 1) (j + a + 1) (n + nat \<bar>bag ! i'\<bar>)"
    "a + 1 + length (filter (\<lambda>r. r \<noteq> 0) (drop (i' + 1) bag)) =
       length (filter (\<lambda>r. r \<noteq> 0) (drop i bag))"
    by blast
  from InitializeRmseBoosting_next_finds [OF nn, of i 1] obtain i2 a2 where ib:
    "InitializeRmseBoosting_next False bag i i 1 = Inr (bag ! i2, i2 + 1, i + (i2 + 1 - i), 1 + a2 + 1)"
    "?N = replicate (nat \<bar>bag ! i2\<bar>) n @
       replicated_gradients False (\<lambda>i j n. n) (drop (i2 + 1) bag) (i2 + 1) (j + a2 + 1) (n + nat \<bar>bag ! i2\<bar>)"
    by blast
  from ia(4) ib(1) have eq: "i2 = i'" "a2 = a" by simp_all
  have pos: "0 < bag ! i'" using ia(3) by (auto simp: bag_selects_def)
  then have m: "nat \<bar>bag ! i'\<bar> = nat (bag ! i')" by simp
  have nx: "InitializeRmseInteraction_next bag i i 1 = Inr (bag ! i', Suc i', Suc i', Suc (Suc a))"
    using ia(4) ia(1) by (simp add: InitializeRmseInteraction_next_boosting)
  show ?thesis
    using ia(1,2) pos nx ia(5) ib(2) ia(6) unfolding eq m
    by (intro exI [of _ i'] exI [of _ a]) simp
qed

text \<open>
  \<open>pWeight\<close> is at the entry that is written next, when a subset with weights starts
  with the first gradient of a sample.
\<close>

lemma aligned_cursor:
  assumes at: "at_entry ys s p" and at': "at_entry ys s' p'"
    and e: "entry_index ys s' p' = entry_index ys s p + m"
    and le: "s \<le> s'"
    and al: "s < s' \<Longrightarrow> (replicate m (entry_index ys s p) @ N) ! (entry_index ys s' 0 - entry_index ys s p) =
               entry_index ys s' 0"
  shows "(if s' = s then p' = p + m else p' = 0)"
proof (cases "s' = s")
  case True
  with e show ?thesis by (simp add: entry_index_def)
next
  case False
  then have lt: "s < s'" using le by simp
  have mono: "entry_index ys s p < entry_index ys s' 0" by (rule entry_index_mono [OF at lt])
  have st: "entry_index ys s' 0 + p' = entry_index ys s p + m"
    using e by (simp add: entry_index_def)
  have "p' = 0"
  proof (rule ccontr)
    assume "p' \<noteq> 0"
    then have "entry_index ys s' 0 - entry_index ys s p < m" using st mono by linarith
    then have "(replicate m (entry_index ys s p) @ N) ! (entry_index ys s' 0 - entry_index ys s p) =
        entry_index ys s p"
      by (simp add: nth_append)
    with al [OF lt] mono show False by simp
  qed
  with False show ?thesis by simp
qed

lemma aligned_later:
  assumes at': "at_entry ys s' p'"
    and e: "entry_index ys s' p' = n + m"
    and lt: "s' < s''"
    and al: "(replicate m n @ N) ! (entry_index ys s'' 0 - n) = entry_index ys s'' 0"
  shows "N ! (entry_index ys s'' 0 - (n + m)) = entry_index ys s'' 0"
proof -
  have "n + m < entry_index ys s'' 0"
    using entry_index_mono [OF at' lt] e by simp
  then have "\<not> entry_index ys s'' 0 - n < m" by linarith
  then have "(replicate m n @ N) ! (entry_index ys s'' 0 - n) = N ! (entry_index ys s'' 0 - n - m)"
    by (simp add: nth_append)
  with al show ?thesis by (simp add: diff_diff_left)
qed

text \<open>One turn of the \<open>while(true)\<close>, when \<open>pWeight\<close> is at the entry that is written next.\<close>

lemma InitializeRmseInteraction_loop_step:
  fixes xs :: "('f :: {zero, minus, times}) DataSubsetInteraction list"
  assumes nx: "InitializeRmseInteraction_next bag i i 1 = Inr (r, Suc i', Suc i', Suc (Suc a))"
    and it: "i' < length T"
    and sc: "case I of None \<Rightarrow> True | Some scores \<Rightarrow> q + a < length scores"
    and at: "at_entry (map boosting_of xs) s p"
    and wl: "list_all (\<lambda>s. case m_aWeightsInteraction s of
                              None \<Rightarrow> True
                            | Some ws \<Rightarrow> length ws = length (m_aGradHessInteraction s)) xs"
    and cur: "w = (case m_aWeightsInteraction (xs ! s) of None \<Rightarrow> None | Some ws \<Rightarrow> Some p)"
  shows "InitializeRmseInteraction_loop dbg conv T (Some bag) I i i q s p w xs =
     (case InitializeRmseInteraction_write dbg
             (weighted (weights_interaction xs ! entry_index (map boosting_of xs) s p)
                (rmse_gradient conv T I i' (q + a)))
             r s p (case m_aWeightsInteraction (xs ! s) of
                      None \<Rightarrow> None
                    | Some ws \<Rightarrow> Some (nat (int p + r))) xs of
        Inl e \<Rightarrow> Inl e
      | Inr (Returned xs') \<Rightarrow> Inr xs'
      | Inr (Continues (s', p', w', xs')) \<Rightarrow>
          InitializeRmseInteraction_loop dbg conv T (Some bag) I (i' + 1) (i' + 1)
            (case I of None \<Rightarrow> q | Some scores \<Rightarrow> q + a + 1) s' p' w' xs')"
proof -
  from at have s: "s < length xs" by (simp add: at_entry_def)
  note we = weights_interaction_entry [OF at wl]
  have nx': "InitializeRmseInteraction_next bag i i (Suc 0) = Inr (r, Suc i', Suc i', Suc (Suc a))"
    using nx by simp
  show ?thesis
  proof (cases "m_aWeightsInteraction (xs ! s)")
    case wn: None
    have w: "w = None" using cur wn by simp
    have g: "weighted (weights_interaction xs ! entry_index (map boosting_of xs) s p) x = x" for x
      by (simp add: we(1) wn weighted_def)
    show ?thesis
    proof (cases I)
      case None
      show ?thesis
        unfolding g None w wn using it
        by (subst InitializeRmseInteraction_loop.simps)
          (simp add: nx' Let_def rmse_gradient_def ComputeGradientRegressionRmseInit_def
            cong: sum.case_cong flow.case_cong)
    next
      case (Some scores)
      have b: "q + a < length scores" using sc Some by simp
      show ?thesis
        unfolding g Some w wn using it b
        by (subst InitializeRmseInteraction_loop.simps)
          (simp add: nx' Let_def rmse_gradient_def ComputeGradientRegressionRmseInit_def
            cong: sum.case_cong flow.case_cong)
    qed
  next
    case ws: (Some ws)
    have w: "w = Some p" using cur ws by simp
    have pl: "p < length ws" using we(2) [OF ws] .
    have g: "weighted (weights_interaction xs ! entry_index (map boosting_of xs) s p) x = x * ws ! p" for x
      by (simp add: we(1) ws weighted_def)
    show ?thesis
    proof (cases I)
      case None
      show ?thesis
        unfolding g None w using it s pl
        by (subst InitializeRmseInteraction_loop.simps)
          (simp add: nx' ws Let_def rmse_gradient_def ComputeGradientRegressionRmseInit_def
            cong: sum.case_cong flow.case_cong)
    next
      case (Some scores)
      have b: "q + a < length scores" using sc Some by simp
      show ?thesis
        unfolding g Some w using it b s pl
        by (subst InitializeRmseInteraction_loop.simps)
          (simp add: nx' ws Let_def rmse_gradient_def ComputeGradientRegressionRmseInit_def
            cong: sum.case_cong flow.case_cong)
    qed
  qed
qed

lemma same_subsets_nth:
  assumes c: "counts_interaction xs' = counts_interaction xs"
    and w: "map m_aWeightsInteraction xs' = map m_aWeightsInteraction xs"
  shows "length xs' = length xs"
    and "k < length xs \<Longrightarrow> length (m_aGradHessInteraction (xs' ! k)) = length (m_aGradHessInteraction (xs ! k))"
    and "k < length xs \<Longrightarrow> m_aWeightsInteraction (xs' ! k) = m_aWeightsInteraction (xs ! k)"
proof -
  show l: "length xs' = length xs" using w by (metis length_map)
  show "length (m_aGradHessInteraction (xs' ! k)) = length (m_aGradHessInteraction (xs ! k))" if "k < length xs"
    using c that l unfolding counts_interaction_def by (metis nth_map)
  show "m_aWeightsInteraction (xs' ! k) = m_aWeightsInteraction (xs ! k)" if "k < length xs"
    using w that l by (metis nth_map)
qed

lemma nonempty_counts_interaction:
  assumes "list_all (\<lambda>x. m_aGradHessInteraction x \<noteq> []) xs"
    and c: "counts_interaction xs' = counts_interaction xs"
    and w: "map m_aWeightsInteraction xs' = map m_aWeightsInteraction xs"
  shows "list_all (\<lambda>x. m_aGradHessInteraction x \<noteq> []) xs'"
proof -
  have "m_aGradHessInteraction (xs' ! k) \<noteq> []" if "k < length xs'" for k
  proof -
    have k: "k < length xs" using that same_subsets_nth(1) [OF c w] by simp
    have "m_aGradHessInteraction (xs ! k) \<noteq> []" using assms(1) k by (simp add: list_all_length)
    with same_subsets_nth(2) [OF c w k] show ?thesis by auto
  qed
  then show ?thesis by (simp add: list_all_length)
qed

lemma weights_length_counts:
  assumes "list_all (\<lambda>s. case m_aWeightsInteraction s of
                            None \<Rightarrow> True
                          | Some ws \<Rightarrow> length ws = length (m_aGradHessInteraction s)) xs"
    and c: "counts_interaction xs' = counts_interaction xs"
    and w: "map m_aWeightsInteraction xs' = map m_aWeightsInteraction xs"
  shows "list_all (\<lambda>s. case m_aWeightsInteraction s of
                          None \<Rightarrow> True
                        | Some ws \<Rightarrow> length ws = length (m_aGradHessInteraction s)) xs'"
proof -
  have "case m_aWeightsInteraction (xs' ! k) of
          None \<Rightarrow> True
        | Some ws \<Rightarrow> length ws = length (m_aGradHessInteraction (xs' ! k))" if "k < length xs'" for k
  proof -
    have k: "k < length xs" using that same_subsets_nth(1) [OF c w] by simp
    have "case m_aWeightsInteraction (xs ! k) of
            None \<Rightarrow> True
          | Some ws \<Rightarrow> length ws = length (m_aGradHessInteraction (xs ! k))"
      using assms(1) k by (simp add: list_all_length)
    then show ?thesis
      unfolding same_subsets_nth(2) [OF c w k] same_subsets_nth(3) [OF c w k] .
  qed
  then show ?thesis by (simp add: list_all_length)
qed

lemma weights_interaction_counts:
  assumes c: "counts_interaction xs' = counts_interaction xs"
    and w: "map m_aWeightsInteraction xs' = map m_aWeightsInteraction xs"
  shows "weights_interaction xs' = weights_interaction xs"
proof -
  let ?f = "\<lambda>s :: 'a DataSubsetInteraction. case m_aWeightsInteraction s of
                None \<Rightarrow> replicate (length (m_aGradHessInteraction s)) None
              | Some ws \<Rightarrow> map Some ws"
  have "map ?f xs' = map ?f xs"
  proof (rule nth_equalityI)
    show "length (map ?f xs') = length (map ?f xs)"
      using same_subsets_nth(1) [OF c w] by simp
  next
    fix k assume "k < length (map ?f xs')"
    then have k: "k < length xs" using same_subsets_nth(1) [OF c w] by simp
    then have k': "k < length xs'" using same_subsets_nth(1) [OF c w] by simp
    have "?f (xs' ! k) = ?f (xs ! k)"
      unfolding same_subsets_nth(2) [OF c w k] same_subsets_nth(3) [OF c w k] ..
    then show "map ?f xs' ! k = map ?f xs ! k" using k k' by simp
  qed
  then show ?thesis by (simp add: weights_interaction_def)
qed

lemma same_counts_boosting:
  "counts_interaction xs' = counts_interaction xs \<Longrightarrow>
   counts_boosting (map boosting_of xs') = counts_boosting (map boosting_of xs)"
  by (simp add: counts_interaction_boosting)

lemma InitializeRmseInteraction_loop_writes:
  fixes xs :: "('f :: {zero, minus, times}) DataSubsetInteraction list"
  defines "G \<equiv> \<lambda>conv T I (W :: 'f option list) (i :: nat) (j :: nat) (n :: nat).
                 weighted (W ! n) (rmse_gradient conv T I i j)"
  assumes tg: "length bag \<le> length T"
    and at: "at_entry (map boosting_of xs) s p"
    and ne: "list_all (\<lambda>x. m_aGradHessInteraction x \<noteq> []) xs"
    and n: "n = entry_index (map boosting_of xs) s p"
    and W: "W = weights_interaction xs"
    and cap: "length (gradients_interaction xs) - n \<le>
              length (replicated_gradients False (G conv T I W) (drop i bag) i j n)"
    and sc: "case I of None \<Rightarrow> True
             | Some scores \<Rightarrow> q = j \<and> j + length (filter (\<lambda>r. r \<noteq> 0) (drop i bag)) \<le> length scores"
    and wl: "list_all (\<lambda>s. case m_aWeightsInteraction s of
                              None \<Rightarrow> True
                            | Some ws \<Rightarrow> length ws = length (m_aGradHessInteraction s)) xs"
    and cur: "w = (case m_aWeightsInteraction (xs ! s) of None \<Rightarrow> None | Some ws \<Rightarrow> Some p)"
    and al: "\<forall>s''. s < s'' \<and> s'' < length xs \<and> m_aWeightsInteraction (xs ! s'') \<noteq> None \<longrightarrow>
               replicated_gradients False (\<lambda>i j n. n) (drop i bag) i j n ! (subset_start xs s'' - n) =
                 subset_start xs s''"
  shows "\<exists>xs'. InitializeRmseInteraction_loop dbg conv T (Some bag) I i i q s p w xs = Inr xs' \<and>
           counts_interaction xs' = counts_interaction xs \<and>
           map m_aWeightsInteraction xs' = map m_aWeightsInteraction xs \<and>
           gradients_interaction xs' =
             take n (gradients_interaction xs) @
             take (length (gradients_interaction xs) - n)
               (replicated_gradients False (G conv T I W) (drop i bag) i j n)"
  using at ne n W cap sc wl cur al
proof (induction "length bag - i" arbitrary: i j q n s p w xs rule: less_induct)
  case less
  note at = less.prems(1) and ne = less.prems(2) and n = less.prems(3) and W = less.prems(4)
    and cap = less.prems(5) and sc = less.prems(6) and wl = less.prems(7) and cur = less.prems(8)
    and al = less.prems(9)
  let ?ys = "map boosting_of xs"
  let ?F = "gradients_interaction xs"
  let ?R = "replicated_gradients False (G conv T I W) (drop i bag) i j n"
  let ?N = "replicated_gradients False (\<lambda>i j n. n) (drop i bag) i j n"
  have pl: "n < length ?F"
    using entry_index_less [OF at] by (simp add: n gradients_interaction_boosting)
  with cap have "?R \<noteq> []" by auto
  from InitializeRmseInteraction_next_finds [OF this] obtain i' a where ia:
    "i \<le> i'" "i' < length bag" "0 < bag ! i'"
    "InitializeRmseInteraction_next bag i i 1 = Inr (bag ! i', Suc i', Suc i', Suc (Suc a))"
    "?R = replicate (nat (bag ! i')) (G conv T I W i' (j + a) n) @
          replicated_gradients False (G conv T I W) (drop (i' + 1) bag) (i' + 1) (j + a + 1) (n + nat (bag ! i'))"
    "?N = replicate (nat (bag ! i')) n @
          replicated_gradients False (\<lambda>i j n. n) (drop (i' + 1) bag) (i' + 1) (j + a + 1) (n + nat (bag ! i'))"
    "a + 1 + length (filter (\<lambda>r. r \<noteq> 0) (drop (i' + 1) bag)) =
       length (filter (\<lambda>r. r \<noteq> 0) (drop i bag))"
    by blast
  let ?r = "bag ! i'"
  let ?m = "nat ?r"
  let ?g = "G conv T I W i' (j + a) n"
  let ?R' = "replicated_gradients False (G conv T I W) (drop (i' + 1) bag) (i' + 1) (j + a + 1) (n + ?m)"
  let ?N' = "replicated_gradients False (\<lambda>i j n. n) (drop (i' + 1) bag) (i' + 1) (j + a + 1) (n + ?m)"
  let ?q' = "case I of None \<Rightarrow> q | Some scores \<Rightarrow> q + a + 1"
  let ?w1 = "case m_aWeightsInteraction (xs ! s) of None \<Rightarrow> None | Some ws \<Rightarrow> Some (nat (int p + ?r))"
  have it: "i' < length T" using ia(2) tg by simp
  have sc1: "case I of None \<Rightarrow> True | Some scores \<Rightarrow> q + a < length scores"
    using sc ia(7) by (auto split: option.splits)
  have gq: "rmse_gradient conv T I i' (q + a) = rmse_gradient conv T I i' (j + a)"
    using sc by (cases I) (simp_all add: rmse_gradient_def)
  have g: "weighted (weights_interaction xs ! entry_index ?ys s p) (rmse_gradient conv T I i' (q + a)) = ?g"
    unfolding gq by (simp add: G_def W n)
  note unf = InitializeRmseInteraction_loop_step [OF ia(4) it sc1 at wl cur, of dbg conv, unfolded g]
  note Wr = InitializeRmseInteraction_write_loop [OF at ne ia(3), of dbg ?g ?w1, folded n]
  show ?case
  proof (cases "n + ?m < length ?F")
    case True
    with Wr obtain s' p' w' xs' where wr:
      "InitializeRmseInteraction_write dbg ?g ?r s p ?w1 xs = Inr (Continues (s', p', w', xs'))"
      "counts_interaction xs' = counts_interaction xs"
      "map m_aWeightsInteraction xs' = map m_aWeightsInteraction xs"
      "at_entry (map boosting_of xs') s' p'"
      "entry_index (map boosting_of xs') s' p' = n + ?m"
      "s \<le> s'" "w' = (if s' = s then ?w1 else GetWeights (xs ! s'))"
      "gradients_interaction xs' = take n ?F @ replicate ?m ?g @ drop (n + ?m) ?F"
      by blast
    note cb = same_counts_boosting [OF wr(2)]
    have at'y: "at_entry ?ys s' p'" using wr(4) by (simp only: at_entry_counts [OF cb])
    have e'y: "entry_index ?ys s' p' = entry_index ?ys s p + ?m"
      using wr(5) by (simp only: entry_index_counts [OF cb] n)
    have s'l: "s' < length xs" using at'y by (simp add: at_entry_def)
    have lt: "length bag - (i' + 1) < length bag - i" using ia(1,2) by simp
    have L': "length (gradients_interaction xs') = length ?F"
      using length_gradients_counts [OF cb] by (simp add: gradients_interaction_boosting)
    have lR: "length ?R = ?m + length ?R'" by (subst ia(5)) simp
    have cap': "length (gradients_interaction xs') - (n + ?m) \<le> length ?R'"
      using cap True lR unfolding L' by linarith
    have sc': "case I of None \<Rightarrow> True
             | Some scores \<Rightarrow> ?q' = j + a + 1 \<and>
                 (j + a + 1) + length (filter (\<lambda>r. r \<noteq> 0) (drop (i' + 1) bag)) \<le> length scores"
      using sc ia(7) by (auto split: option.splits)
    have W': "W = weights_interaction xs'"
      using weights_interaction_counts [OF wr(2,3)] W by simp
    have ws': "m_aWeightsInteraction (xs' ! s') = m_aWeightsInteraction (xs ! s')"
      by (rule same_subsets_nth(3) [OF wr(2,3) s'l])
    have al0: "(replicate ?m n @ ?N') ! (entry_index ?ys s'' 0 - n) = entry_index ?ys s'' 0"
      if "s < s''" "s'' < length xs" "m_aWeightsInteraction (xs ! s'') \<noteq> None" for s''
    proof -
      from al that have "?N ! (subset_start xs s'' - n) = subset_start xs s''" by blast
      then show ?thesis unfolding ia(6) subset_start_entry .
    qed
    have cur': "w' = (case m_aWeightsInteraction (xs' ! s') of None \<Rightarrow> None | Some ws \<Rightarrow> Some p')"
    proof (cases "m_aWeightsInteraction (xs ! s')")
      case None
      then show ?thesis unfolding ws' wr(7) by (auto simp: GetWeights_def)
    next
      case (Some ws)
      have "if s' = s then p' = p + ?m else p' = 0"
      proof (rule aligned_cursor [OF at at'y e'y wr(6), folded n])
        assume "s < s'"
        then show "(replicate ?m n @ ?N') ! (entry_index ?ys s' 0 - n) = entry_index ?ys s' 0"
          using al0 [of s'] s'l Some by simp
      qed
      moreover have "nat (int p + ?r) = p + ?m" using ia(3) by simp
      ultimately show ?thesis unfolding ws' wr(7) using Some by (auto simp: GetWeights_def)
    qed
    have al': "\<forall>s''. s' < s'' \<and> s'' < length xs' \<and> m_aWeightsInteraction (xs' ! s'') \<noteq> None \<longrightarrow>
        ?N' ! (subset_start xs' s'' - (n + ?m)) = subset_start xs' s''"
    proof (intro allI impI, elim conjE)
      fix s'' assume a: "s' < s''" "s'' < length xs'" "m_aWeightsInteraction (xs' ! s'') \<noteq> None"
      have l: "s'' < length xs" using a(2) same_subsets_nth(1) [OF wr(2,3)] by simp
      have w: "m_aWeightsInteraction (xs ! s'') \<noteq> None"
        using a(3) same_subsets_nth(3) [OF wr(2,3) l] by simp
      have "s < s''" using a(1) wr(6) by simp
      note al0 [OF this l w]
      moreover have "entry_index ?ys s' p' = n + ?m" using e'y unfolding n .
      ultimately have "?N' ! (entry_index ?ys s'' 0 - (n + ?m)) = entry_index ?ys s'' 0"
        using aligned_later [OF at'y _ a(1)] by blast
      then show "?N' ! (subset_start xs' s'' - (n + ?m)) = subset_start xs' s''"
        unfolding subset_start_entry entry_index_counts [OF cb] .
    qed
    have "\<exists>xs''. InitializeRmseInteraction_loop dbg conv T (Some bag) I (i' + 1) (i' + 1) ?q' s' p' w' xs' =
            Inr xs'' \<and>
           counts_interaction xs'' = counts_interaction xs' \<and>
           map m_aWeightsInteraction xs'' = map m_aWeightsInteraction xs' \<and>
           gradients_interaction xs'' =
             take (n + ?m) (gradients_interaction xs') @
             take (length (gradients_interaction xs') - (n + ?m)) ?R'"
      by (rule less.hyps [OF lt wr(4) nonempty_counts_interaction [OF ne wr(2,3)] wr(5) [symmetric] W'
            cap' sc' weights_length_counts [OF wl wr(2,3)] cur' al'])
    then obtain xs'' where r:
      "InitializeRmseInteraction_loop dbg conv T (Some bag) I (i' + 1) (i' + 1) ?q' s' p' w' xs' = Inr xs''"
      "counts_interaction xs'' = counts_interaction xs'"
      "map m_aWeightsInteraction xs'' = map m_aWeightsInteraction xs'"
      "gradients_interaction xs'' =
         take (n + ?m) (gradients_interaction xs') @
         take (length (gradients_interaction xs') - (n + ?m)) ?R'"
      by blast
    have tk: "take (n + ?m) (gradients_interaction xs') = take n ?F @ replicate ?m ?g"
      using True pl unfolding wr(8) by simp
    have "gradients_interaction xs'' = take n ?F @ replicate ?m ?g @ take (length ?F - (n + ?m)) ?R'"
      using r(4) unfolding L' tk by simp
    also have "replicate ?m ?g @ take (length ?F - (n + ?m)) ?R' = take (length ?F - n) ?R"
      using True unfolding ia(5) by simp
    finally have "gradients_interaction xs'' = take n ?F @ take (length ?F - n) ?R" .
    then show ?thesis
      using unf wr(1,2,3) r(1,2,3) by simp
  next
    case False
    with Wr obtain xs' where wr:
      "InitializeRmseInteraction_write dbg ?g ?r s p ?w1 xs = Inr (Returned xs')"
      "counts_interaction xs' = counts_interaction xs"
      "map m_aWeightsInteraction xs' = map m_aWeightsInteraction xs"
      "gradients_interaction xs' = take n ?F @ replicate (length ?F - n) ?g"
      by (metis not_less)
    have "replicate (length ?F - n) ?g = take (length ?F - n) ?R"
      using False unfolding ia(5) by (simp add: min_def)
    then show ?thesis
      using unf wr by simp
  qed
qed

lemma InitializeRmseInteraction_writes:
  fixes xs :: "('f :: {zero, minus, times}) DataSubsetInteraction list"
  assumes xs: "xs \<noteq> []"
    and ne: "list_all (\<lambda>s. m_aGradHessInteraction s \<noteq> []) xs"
    and cap: "length (gradients_interaction xs) \<le>
        length (rmse_gradients_interaction conv T bag I xs)"
    and tg: "length bag \<le> length T"
    and sc: "case I of None \<Rightarrow> True
             | Some scores \<Rightarrow> length (filter (\<lambda>r. r \<noteq> 0) bag) \<le> length scores"
    and wl: "list_all (\<lambda>s. case m_aWeightsInteraction s of
                       None \<Rightarrow> True
                     | Some ws \<Rightarrow> length ws = length (m_aGradHessInteraction s)) xs"
    and al: "list_all (\<lambda>pSubset. m_aWeightsInteraction (xs ! pSubset) \<noteq> None \<longrightarrow>
                  run_start bag (subset_start xs pSubset) = subset_start xs pSubset) [0 ..< length xs]"
  shows "\<exists>xs'. InitializeRmseInteraction_loop dbg conv T (Some bag) I 0 0 0 0 0 (GetWeights (xs ! 0)) xs = Inr xs' \<and>
           counts_interaction xs' = counts_interaction xs \<and>
           map m_aWeightsInteraction xs' = map m_aWeightsInteraction xs \<and>
           gradients_interaction xs' =
             take (length (gradients_interaction xs)) (rmse_gradients_interaction conv T bag I xs)"
proof -
  have first: "m_aGradHessInteraction (xs ! 0) \<noteq> []"
    using xs ne by (cases xs) simp_all
  have at: "at_entry (map boosting_of xs) 0 0" using xs first by (simp add: at_entry_def)
  have e0: "0 = entry_index (map boosting_of xs) 0 0"
    by (simp add: entry_index_def gradients_boosting_def)
  have cap': "length (gradients_interaction xs) - 0 \<le>
      length (replicated_gradients False
        (\<lambda>i j n. weighted (weights_interaction xs ! n) (rmse_gradient conv T I i j)) (drop 0 bag) 0 0 0)"
    using cap by (simp add: rmse_gradients_interaction_def)
  have sc': "case I of None \<Rightarrow> True
             | Some scores \<Rightarrow> (0 :: nat) = 0 \<and> 0 + length (filter (\<lambda>r. r \<noteq> 0) (drop 0 bag)) \<le> length scores"
    using sc by (simp split: option.splits)
  have cur: "GetWeights (xs ! 0) = (case m_aWeightsInteraction (xs ! 0) of None \<Rightarrow> None | Some ws \<Rightarrow> Some 0)"
    by (simp add: GetWeights_def)
  have al': "\<forall>s''. 0 < s'' \<and> s'' < length xs \<and> m_aWeightsInteraction (xs ! s'') \<noteq> None \<longrightarrow>
      replicated_gradients False (\<lambda>i j n. n) (drop 0 bag) 0 0 0 ! (subset_start xs s'' - 0) =
        subset_start xs s''"
    using al by (simp add: list_all_iff run_start_def)
  from InitializeRmseInteraction_loop_writes [OF tg at ne e0 refl cap' sc' wl cur al', of dbg]
  show ?thesis by (simp add: rmse_gradients_interaction_def)
qed

lemma InitializeRmseBoosting_training_writes:
  fixes xs :: "('f :: {zero, minus}) DataSubsetBoosting list"
  assumes xs: "xs \<noteq> []"
    and ne: "list_all (\<lambda>s. m_aGradHessBoosting s \<noteq> []) xs"
    and cap: "length (gradients_boosting xs) \<le> length (rmse_gradients_boosting conv T 1 bag I)"
    and tg: "length bag \<le> length T"
    and sc: "case I of None \<Rightarrow> True
             | Some scores \<Rightarrow> length (filter (\<lambda>r. r \<noteq> 0) bag) \<le> length scores"
  shows "\<exists>xs'. InitializeRmseBoosting_loop dbg conv 1 False T (Some bag) I 0 0 0 0 0 xs = Inr xs' \<and>
           gradients_boosting xs' =
             take (length (gradients_boosting xs)) (rmse_gradients_boosting conv T 1 bag I)"
proof -
  have first: "m_aGradHessBoosting (xs ! 0) \<noteq> []"
    using xs ne by (cases xs) simp_all
  have at: "at_entry xs 0 0" using xs first by (simp add: at_entry_def)
  have e0: "entry_index xs 0 0 = 0" by (simp add: entry_index_def gradients_boosting_def)
  have d: "((1 :: int) = 1 \<and> \<not> False) \<or> ((1 :: int) = - 1 \<and> False)" by simp
  have cap': "length (gradients_boosting xs) - entry_index xs 0 0 \<le>
      length (replicated_gradients False (\<lambda>i j n. rmse_gradient conv T I i j) (drop 0 bag) 0 0 0)"
    using cap by (simp add: rmse_gradients_boosting_def)
  have sc': "case I of None \<Rightarrow> True
             | Some scores \<Rightarrow> (0 :: nat) = 0 \<and> 0 + length (filter (\<lambda>r. r \<noteq> 0) (drop 0 bag)) \<le> length scores"
    using sc by (simp split: option.splits)
  from InitializeRmseBoosting_loop_writes [OF at ne d cap' tg sc', of dbg]
  show ?thesis by (auto simp: e0 rmse_gradients_boosting_def)
qed

section \<open>The ladders of the dispatcher\<close>

lemma BinSumsInteractionDimensions_ladder:
  assumes "k_cCompilerOptimizedCountDimensionsMax k \<le> k_cDimensionsMax k"
    and "dbg \<longrightarrow> 1 \<le> m_cSignificantDimensions pTerm \<and> m_cSignificantDimensions pTerm \<le> k_cDimensionsMax k"
    and "1 \<le> d" and "d \<le> k_cCompilerOptimizedCountDimensionsMax k + 1"
  shows "BinSumsInteractionDimensions k dbg Internal C d pInteractionShell pTerm =
         Internal C
           (if d \<le> m_cSignificantDimensions pTerm \<and>
               m_cSignificantDimensions pTerm \<le> k_cCompilerOptimizedCountDimensionsMax k
            then Dimensions (m_cSignificantDimensions pTerm) else k_dynamicDimensions)
           pInteractionShell pTerm"
  using assms(3,4)
proof (induction "k_cCompilerOptimizedCountDimensionsMax k + 1 - d" arbitrary: d)
  case 0
  then have "d = k_cCompilerOptimizedCountDimensionsMax k + 1" by simp
  then show ?case using assms(2)
    by (subst BinSumsInteractionDimensions.simps) auto
next
  case (Suc n)
  then have lt: "d \<le> k_cCompilerOptimizedCountDimensionsMax k" and ne: "d \<noteq> k_cCompilerOptimizedCountDimensionsMax k + 1"
    by simp_all
  show ?case
  proof (cases "d = m_cSignificantDimensions pTerm")
    case True
    then show ?thesis using lt ne assms(1,2) Suc.prems
      by (subst BinSumsInteractionDimensions.simps) (auto simp: Let_def)
  next
    case False
    have n: "n = k_cCompilerOptimizedCountDimensionsMax k + 1 - (d + 1)" using Suc.hyps(2) by simp
    have "BinSumsInteractionDimensions k dbg Internal C d pInteractionShell pTerm =
          BinSumsInteractionDimensions k dbg Internal C (d + 1) pInteractionShell pTerm"
      using lt ne assms(1,2) Suc.prems False
      by (subst BinSumsInteractionDimensions.simps) (auto simp: Let_def)
    also have "\<dots> = Internal C
           (if d + 1 \<le> m_cSignificantDimensions pTerm \<and>
               m_cSignificantDimensions pTerm \<le> k_cCompilerOptimizedCountDimensionsMax k
            then Dimensions (m_cSignificantDimensions pTerm) else k_dynamicDimensions)
           pInteractionShell pTerm"
      using Suc.hyps(1) [OF n] lt by simp
    finally show ?thesis using False by (auto simp: Suc_le_eq)
  qed
qed

lemma BinSumsInteractionTarget_ladder:
  assumes "dbg \<longrightarrow> (\<exists>K. m_cClasses (m_pInteractionCore pInteractionShell) = Classes K \<and> c \<le> K \<and> K \<le> k_cCompilerClassesMax k)"
    and "IsClassification (m_cClasses (m_pInteractionCore pInteractionShell))"
    and "c \<le> k_cCompilerClassesMax k + 1"
  shows "BinSumsInteractionTarget k dbg Internal c pInteractionShell pTerm =
         BinSumsInteractionDimensions k dbg Internal
           (case m_cClasses (m_pInteractionCore pInteractionShell) of
              Classes K \<Rightarrow> if c \<le> K \<and> K \<le> k_cCompilerClassesMax k then Classes K else k_dynamicClassification
            | _ \<Rightarrow> k_dynamicClassification) 2 pInteractionShell pTerm"
  using assms(1,3)
proof (induction "k_cCompilerClassesMax k + 1 - c" arbitrary: c)
  case 0
  then have "c = k_cCompilerClassesMax k + 1" by simp
  then show ?case using assms(2) "0.prems"(1)
    by (subst BinSumsInteractionTarget.simps) (auto split: classes.splits)
next
  case (Suc n)
  then have lt: "c \<le> k_cCompilerClassesMax k" and ne: "c \<noteq> k_cCompilerClassesMax k + 1"
    by simp_all
  show ?case
  proof (cases "Classes c = m_cClasses (m_pInteractionCore pInteractionShell)")
    case True
    then show ?thesis using lt ne assms(2) Suc.prems
      by (subst BinSumsInteractionTarget.simps) (auto simp: Let_def split: classes.splits)
  next
    case False
    have n: "n = k_cCompilerClassesMax k + 1 - (c + 1)" using Suc.hyps(2) by simp
    have d: "dbg \<longrightarrow> (\<exists>K. m_cClasses (m_pInteractionCore pInteractionShell) = Classes K \<and> c + 1 \<le> K \<and> K \<le> k_cCompilerClassesMax k)"
      using Suc.prems(1) False by (auto simp: Suc_le_eq le_less)
    have "BinSumsInteractionTarget k dbg Internal c pInteractionShell pTerm =
          BinSumsInteractionTarget k dbg Internal (c + 1) pInteractionShell pTerm"
      using lt ne assms(2) Suc.prems False
      by (subst BinSumsInteractionTarget.simps) (auto simp: Let_def)
    also have "\<dots> = BinSumsInteractionDimensions k dbg Internal
           (case m_cClasses (m_pInteractionCore pInteractionShell) of
              Classes K \<Rightarrow> if c + 1 \<le> K \<and> K \<le> k_cCompilerClassesMax k then Classes K else k_dynamicClassification
            | _ \<Rightarrow> k_dynamicClassification) 2 pInteractionShell pTerm"
      using Suc.hyps(1) [OF n d] lt by simp
    finally show ?thesis using False by (auto simp: Suc_le_eq le_less split: classes.splits)
  qed
qed

section \<open>The scenarios, evaluated\<close>

lemma S3_pre: "binSums_pre False 1 S3_shell S3_term"
  by (simp add: binSums_pre_def S3_shell_def S3_term_def feature_ok_def term_bins_def zero_bin_def)

lemma S3_binSums:
  "binSums False 1 S3_term (m_dataFrame (m_pInteractionCore S3_shell)) (m_aBinsFast S3_shell) =
     [\<lparr>m_cSamples = 1, m_weight = 5, m_aGradientPairs = [\<lparr>m_sumGradients = - 5, m_sumHessians = 0\<rparr>]\<rparr>,
      zero_bin 1, zero_bin 1, zero_bin 1, zero_bin 1,
      \<lparr>m_cSamples = 1, m_weight = 2, m_aGradientPairs = [\<lparr>m_sumGradients = 6, m_sumHessians = 0\<rparr>]\<rparr>]"
  by (simp add: binSums_def binSums_sample_def bin_add_sample_def S3_shell_def S3_term_def
      sample_index_def sample_bins_def term_bins_def sample_weight_def sample_gradient_def zero_bin_def
      upt_rec)

lemma S3_index: "sample_index S3_term (m_dataFrame (m_pInteractionCore S3_shell)) 0 = 5"
  by (simp add: S3_shell_def S3_term_def sample_index_def sample_bins_def term_bins_def)

lemma K3_pre: "binSums_pre True 3 K3_shell S3_term"
  by (simp add: binSums_pre_def K3_shell_def S3_term_def feature_ok_def term_bins_def zero_bin_def)

lemma K3_binSums:
  "binSums True 3 S3_term (m_dataFrame (m_pInteractionCore K3_shell)) (m_aBinsFast K3_shell) =
     [zero_bin 3, zero_bin 3, zero_bin 3, zero_bin 3, zero_bin 3,
      \<lparr>m_cSamples = 1, m_weight = 2, m_aGradientPairs =
         [\<lparr>m_sumGradients = 1, m_sumHessians = 1 / 2\<rparr>, \<lparr>m_sumGradients = - 1 / 2, m_sumHessians = 1 / 4\<rparr>,
          \<lparr>m_sumGradients = 2, m_sumHessians = 1 / 8\<rparr>]\<rparr>]"
  by (simp add: binSums_def binSums_sample_def bin_add_sample_def K3_shell_def S3_term_def
      sample_index_def sample_bins_def term_bins_def sample_weight_def sample_gradient_def
      sample_hessian_def zero_bin_def upt_rec)

lemma S1_pre: "binSums_pre False 1 S1_shell S1_term"
  by (simp add: binSums_pre_def S1_shell_def S1_term_def feature_ok_def term_bins_def zero_bin_def)

lemma S1_index: "sample_index S1_term (m_dataFrame (m_pInteractionCore S1_shell)) 0 = 1"
  by (simp add: S1_shell_def S1_term_def sample_index_def sample_bins_def term_bins_def)

lemma S1_binSums:
  "binSums False 1 S1_term (m_dataFrame (m_pInteractionCore S1_shell)) (m_aBinsFast S1_shell) =
     [zero_bin 1,
      \<lparr>m_cSamples = 1, m_weight = 1, m_aGradientPairs = [\<lparr>m_sumGradients = - 3, m_sumHessians = 0\<rparr>]\<rparr>,
      zero_bin 1]"
  by (simp add: binSums_def binSums_sample_def bin_add_sample_def S1_shell_def S1_term_def
      sample_index_def sample_bins_def term_bins_def sample_weight_def sample_gradient_def zero_bin_def
      upt_rec)

lemma S3u_pre: "binSums_pre False 1 S3_unweighted_shell S3_term"
  by (simp add: binSums_pre_def S3_unweighted_shell_def S3_term_def feature_ok_def term_bins_def zero_bin_def)

lemma S4w_pre: "binSums_pre True 1 S4_weighted_shell S4_term"
  by (simp add: binSums_pre_def S4_weighted_shell_def S4_term_def feature_ok_def term_bins_def zero_bin_def)

lemma S4w_binSums:
  "binSums True 1 S4_term (m_dataFrame (m_pInteractionCore S4_weighted_shell)) (m_aBinsFast S4_weighted_shell) =
     [\<lparr>m_cSamples = 1, m_weight = 4, m_aGradientPairs = [\<lparr>m_sumGradients = - 2, m_sumHessians = 1\<rparr>]\<rparr>,
      zero_bin 1]"
  by (simp add: binSums_def binSums_sample_def bin_add_sample_def S4_weighted_shell_def S4_term_def
      sample_index_def sample_bins_def term_bins_def sample_weight_def sample_gradient_def
      sample_hessian_def zero_bin_def upt_rec)

lemma S4_pre: "binSums_pre True 1 S4_shell S4_term"
  by (simp add: binSums_pre_def S4_shell_def S4_term_def feature_ok_def term_bins_def zero_bin_def)

lemma S4_binSums:
  "binSums True 1 S4_term (m_dataFrame (m_pInteractionCore S4_shell)) (m_aBinsFast S4_shell) =
     [\<lparr>m_cSamples = 1, m_weight = 1, m_aGradientPairs = [\<lparr>m_sumGradients = - 1 / 2, m_sumHessians = 1 / 4\<rparr>]\<rparr>,
      zero_bin 1]"
  by (simp add: binSums_def binSums_sample_def bin_add_sample_def S4_shell_def S4_term_def
      sample_index_def sample_bins_def term_bins_def sample_weight_def sample_gradient_def
      sample_hessian_def zero_bin_def upt_rec)

text \<open>The assertions of a debug build hold in the scenarios.\<close>

lemma S3_debug:
  "debug_asserts real_floats False 1 S3_term (m_dataFrame (m_pInteractionCore S3_shell)) (m_aBinsFast S3_shell)"
  by (simp add: debug_asserts_def real_floats_def S3_shell_def)

lemma S3u_debug:
  "debug_asserts real_floats False 1 S3_term (m_dataFrame (m_pInteractionCore S3_unweighted_shell))
     (m_aBinsFast S3_unweighted_shell)"
  by (simp add: debug_asserts_def real_floats_def S3_unweighted_shell_def)

lemma S1_debug:
  "debug_asserts real_floats False 1 S1_term (m_dataFrame (m_pInteractionCore S1_shell)) (m_aBinsFast S1_shell)"
  by (simp add: debug_asserts_def real_floats_def S1_shell_def)

lemma K3_debug:
  "debug_asserts real_floats True 3 S3_term (m_dataFrame (m_pInteractionCore K3_shell)) (m_aBinsFast K3_shell)"
  by (simp add: debug_asserts_def sample_asserts_def gradient_assert_def hessian_assert_def
      hessian_sum_assert_def real_floats_def K3_shell_def S3_term_def sample_index_def sample_bins_def
      term_bins_def sample_weight_def sample_gradient_def sample_hessian_def zero_bin_def upt_rec)

lemma S4w_debug:
  "debug_asserts real_floats True 1 S4_term (m_dataFrame (m_pInteractionCore S4_weighted_shell))
     (m_aBinsFast S4_weighted_shell)"
  by (simp add: debug_asserts_def sample_asserts_def gradient_assert_def hessian_assert_def
      hessian_sum_assert_def real_floats_def S4_weighted_shell_def S4_term_def sample_index_def
      sample_bins_def term_bins_def sample_weight_def sample_gradient_def sample_hessian_def zero_bin_def
      upt_rec)

lemma S4_debug:
  "debug_asserts real_floats True 1 S4_term (m_dataFrame (m_pInteractionCore S4_shell)) (m_aBinsFast S4_shell)"
  by (simp add: debug_asserts_def sample_asserts_def gradient_assert_def hessian_assert_def
      hessian_sum_assert_def real_floats_def S4_shell_def S4_term_def sample_index_def
      sample_bins_def term_bins_def sample_weight_def sample_gradient_def sample_hessian_def zero_bin_def
      upt_rec)

lemma S4w_kernel:
  "BinSumsInteractionInternal real_floats dbg (Classes 2) k_dynamicDimensions S4_weighted_shell S4_term =
   Inr (S4_weighted_shell\<lparr>m_aBinsFast :=
     [\<lparr>m_cSamples = 1, m_weight = 4, m_aGradientPairs = [\<lparr>m_sumGradients = - 2, m_sumHessians = 1\<rparr>]\<rparr>,
      zero_bin 1]\<rparr>)"
proof -
  have c: "GetCountScores (GET_COUNT_CLASSES (Classes 2) (m_cClasses (m_pInteractionCore S4_weighted_shell))) = 1"
    by (simp add: GET_COUNT_CLASSES_def)
  have d: "GET_DIMENSIONS k_dynamicDimensions (m_cSignificantDimensions S4_term) = length (m_aTermEntries S4_term)"
    by (simp add: S4_term_def)
  show ?thesis
    using BinSumsInteractionInternal_refines [of "Classes 2" S4_weighted_shell S4_term k_dynamicDimensions dbg
        real_floats] S4w_pre S4w_binSums S4w_debug d
    by (simp add: c)
qed

lemma S4w_ranges:
  "zeroed (m_aBinsFast S4_weighted_shell)"
  "hessians_in_range real_floats 1 (m_dataFrame (m_pInteractionCore S4_weighted_shell))"
  "weights_nonnegative real_floats (m_dataFrame (m_pInteractionCore S4_weighted_shell))"
  "sample_gradient True 1 (m_dataFrame (m_pInteractionCore S4_weighted_shell)) 0 0 = - 1 / 2"
  by (simp_all add: zeroed_def hessians_in_range_def weights_nonnegative_def S4_weighted_shell_def
      zero_bin_def sample_hessian_def sample_weight_def sample_gradient_def real_floats_def upt_rec)

lemma S4_ranges:
  "zeroed (m_aBinsFast S4_shell)"
  "hessians_in_range real_floats 1 (m_dataFrame (m_pInteractionCore S4_shell))"
  "weights_nonnegative real_floats (m_dataFrame (m_pInteractionCore S4_shell))"
  by (simp_all add: zeroed_def hessians_in_range_def weights_nonnegative_def S4_shell_def
      zero_bin_def sample_hessian_def sample_weight_def real_floats_def upt_rec)

text \<open>The real numbers have the laws of the bound, and their arithmetic is exact.\<close>

lemma real_floats_laws:
  "monotone_floats real_floats" "exact_scaling real_floats" "exact_quarters real_floats (\<lambda>n. real n / 4) N"
proof -
  have "h * w \<le> 1 / 4 * w" if "h \<le> 1 / 4" "0 \<le> w" for h w :: real
    using that by (rule mult_right_mono)
  then show "monotone_floats real_floats"
    by (simp add: monotone_floats_def real_floats_def)
  show "exact_scaling real_floats"
    by (simp add: exact_scaling_def real_floats_def algebra_simps)
  show "exact_quarters real_floats (\<lambda>n. real n / 4) N"
    by (simp add: exact_quarters_def real_floats_def add_divide_distrib)
qed

text \<open>
  The \<open>double\<close> values with the arithmetic of the scenarios have the laws of the bound,
  infinities and \<open>NaN\<close> included.
\<close>

lemmas double_arith = zero_double_def one_double_def plus_double_def times_double_def uminus_double_def
  minus_double_def less_eq_double_def less_double_def fp_sub_def

lemma double_floats_laws:
  "monotone_floats double_floats" "exact_scaling double_floats"
  "exact_quarters double_floats (\<lambda>n. Finite (real n / 4)) N"
proof -
  have s: "(0 :: double) \<le> a \<and> a \<le> b \<and> 0 \<le> c \<and> c \<le> d \<longrightarrow> 0 \<le> a + c \<and> a + c \<le> b + d" for a b c d :: double
    by (cases a; cases b; cases c; cases d) (simp_all add: double_arith)
  have r: "x * y * 4 \<le> y" if "x * 4 \<le> 1" "0 \<le> y" for x y :: real
    using mult_right_mono [OF that] by (simp add: ac_simps)
  have m: "0 \<le> h \<and> h \<le> Finite (1 / 4) \<and> 0 \<le> w \<and> \<not> isinf w \<longrightarrow>
      0 \<le> h * w \<and> h * w \<le> Finite (1 / 4) * w" for h w :: double
    by (cases h; cases w) (auto simp: double_arith r)
  show "monotone_floats double_floats"
    unfolding monotone_floats_def
  proof (intro conjI allI)
    show "(0 :: double) \<le> 0"
      by (simp add: double_arith)
    show "0 \<le> a \<and> a \<le> b \<and> 0 \<le> c \<and> c \<le> d \<longrightarrow> 0 \<le> a + c \<and> a + c \<le> b + d" for a b c d :: double
      by (rule s)
    show "0 \<le> h \<and> h \<le> FloatFast_quarter double_floats \<and> 0 \<le> w \<and> \<not> std_isinf double_floats w \<longrightarrow>
        0 \<le> h * w \<and> h * w \<le> FloatFast_quarter double_floats * w" for h w :: double
      using m [of h w] by (simp add: double_floats_def)
  qed
  have e: "Finite (1 / 4) * a + Finite (1 / 4) * b = Finite (1 / 4) * (a + b)" for a b :: double
    by (cases a; cases b) (simp_all add: double_arith algebra_simps)
  show "exact_scaling double_floats"
    unfolding exact_scaling_def
  proof (intro conjI allI)
    show "FloatFast_quarter double_floats * 0 = 0"
      by (simp add: double_floats_def double_arith)
    show "FloatFast_quarter double_floats * a + FloatFast_quarter double_floats * b =
        FloatFast_quarter double_floats * (a + b)" for a b :: double
      using e [of a b] by (simp add: double_floats_def)
  qed
  show "exact_quarters double_floats (\<lambda>n. Finite (real n / 4)) N"
    by (simp add: exact_quarters_def double_floats_def double_arith add_divide_distrib)
qed

text \<open>Scenario S4 with weight 4 over the \<open>double\<close> values.\<close>

lemma S4d_pre: "binSums_pre True 1 S4_double_shell S4_term"
  by (simp add: binSums_pre_def S4_double_shell_def S4_term_def feature_ok_def term_bins_def zero_bin_def)

lemma S4d_binSums:
  "binSums True 1 S4_term (m_dataFrame (m_pInteractionCore S4_double_shell)) (m_aBinsFast S4_double_shell) =
     [\<lparr>m_cSamples = 1, m_weight = Finite 4,
        m_aGradientPairs = [\<lparr>m_sumGradients = Finite (- 2), m_sumHessians = Finite 1\<rparr>]\<rparr>,
      zero_bin 1]"
  by (simp add: binSums_def binSums_sample_def bin_add_sample_def S4_double_shell_def S4_term_def
      sample_index_def sample_bins_def term_bins_def sample_weight_def sample_gradient_def
      sample_hessian_def zero_bin_def upt_rec double_arith)

lemma S4d_debug:
  "debug_asserts double_floats True 1 S4_term (m_dataFrame (m_pInteractionCore S4_double_shell))
     (m_aBinsFast S4_double_shell)"
  by (simp add: debug_asserts_def sample_asserts_def gradient_assert_def hessian_assert_def
      hessian_sum_assert_def double_floats_def S4_double_shell_def S4_term_def sample_index_def
      sample_bins_def term_bins_def sample_weight_def sample_gradient_def sample_hessian_def zero_bin_def
      upt_rec double_arith)

lemma S4d_ranges:
  "zeroed (m_aBinsFast S4_double_shell)"
  "hessians_in_range double_floats 1 (m_dataFrame (m_pInteractionCore S4_double_shell))"
  "weights_nonnegative double_floats (m_dataFrame (m_pInteractionCore S4_double_shell))"
  by (simp_all add: zeroed_def hessians_in_range_def weights_nonnegative_def S4_double_shell_def
      zero_bin_def sample_hessian_def sample_weight_def double_floats_def upt_rec double_arith)

text \<open>
  Why the weights are to be finite. With a Hessian of 0 and the weight \<open>+inf\<close> every
  other condition of the bound holds, and so does every assertion of a debug build (a
  \<open>NaN\<close> passes them); the Hessian sum of the bin is the \<open>NaN\<close> of \<open>0 * inf\<close>, which is
  not above 0.
\<close>

lemma S4_infinite_run:
  "binSums_pre True 1 S4_infinite_shell S4_term"
  "zeroed (m_aBinsFast S4_infinite_shell)"
  "hessians_in_range double_floats 1 (m_dataFrame (m_pInteractionCore S4_infinite_shell))"
  "debug_asserts double_floats True 1 S4_term (m_dataFrame (m_pInteractionCore S4_infinite_shell))
     (m_aBinsFast S4_infinite_shell)"
  "BinSumsInteractionInternal double_floats True (Classes 2) k_dynamicDimensions S4_infinite_shell S4_term =
     Inr (S4_infinite_shell\<lparr>m_aBinsFast :=
       [\<lparr>m_cSamples = 1, m_weight = PosInf,
          m_aGradientPairs = [\<lparr>m_sumGradients = NegInf, m_sumHessians = NaN\<rparr>]\<rparr>,
        zero_bin 1]\<rparr>)"
  "\<not> (0 :: double) \<le> NaN"
proof -
  show p: "binSums_pre True 1 S4_infinite_shell S4_term"
    by (simp add: binSums_pre_def S4_infinite_shell_def S4_term_def feature_ok_def term_bins_def zero_bin_def)
  show "zeroed (m_aBinsFast S4_infinite_shell)"
    by (simp add: zeroed_def S4_infinite_shell_def zero_bin_def)
  show "hessians_in_range double_floats 1 (m_dataFrame (m_pInteractionCore S4_infinite_shell))"
    by (simp add: hessians_in_range_def S4_infinite_shell_def sample_hessian_def double_floats_def upt_rec
        double_arith)
  show a: "debug_asserts double_floats True 1 S4_term (m_dataFrame (m_pInteractionCore S4_infinite_shell))
     (m_aBinsFast S4_infinite_shell)"
    by (simp add: debug_asserts_def sample_asserts_def gradient_assert_def hessian_assert_def
      hessian_sum_assert_def double_floats_def S4_infinite_shell_def S4_term_def sample_index_def
      sample_bins_def term_bins_def sample_weight_def sample_gradient_def sample_hessian_def zero_bin_def
      upt_rec double_arith)
  have b: "binSums True 1 S4_term (m_dataFrame (m_pInteractionCore S4_infinite_shell)) (m_aBinsFast S4_infinite_shell) =
     [\<lparr>m_cSamples = 1, m_weight = PosInf,
        m_aGradientPairs = [\<lparr>m_sumGradients = NegInf, m_sumHessians = NaN\<rparr>]\<rparr>,
      zero_bin 1]"
    by (simp add: binSums_def binSums_sample_def bin_add_sample_def S4_infinite_shell_def S4_term_def
      sample_index_def sample_bins_def term_bins_def sample_weight_def sample_gradient_def
      sample_hessian_def zero_bin_def upt_rec double_arith)
  have c: "GetCountScores (GET_COUNT_CLASSES (Classes 2) (m_cClasses (m_pInteractionCore S4_infinite_shell))) = 1"
    by (simp add: GET_COUNT_CLASSES_def)
  have d: "GET_DIMENSIONS k_dynamicDimensions (m_cSignificantDimensions S4_term) = length (m_aTermEntries S4_term)"
    by (simp add: S4_term_def)
  show "BinSumsInteractionInternal double_floats True (Classes 2) k_dynamicDimensions S4_infinite_shell S4_term =
     Inr (S4_infinite_shell\<lparr>m_aBinsFast :=
       [\<lparr>m_cSamples = 1, m_weight = PosInf,
          m_aGradientPairs = [\<lparr>m_sumGradients = NegInf, m_sumHessians = NaN\<rparr>]\<rparr>,
        zero_bin 1]\<rparr>)"
    using BinSumsInteractionInternal_refines [of "Classes 2" S4_infinite_shell S4_term k_dynamicDimensions True
        double_floats] p a b d
    by (simp add: c)
  show "\<not> (0 :: double) \<le> NaN"
    by (simp add: double_arith)
qed

text \<open>
  Where a debug build stops. A dataset without samples has no positive weight total
  that is its count. A Hessian above \<open>0.25\<close> fails the assertion on the Hessian. The
  release build returns in both cases.
\<close>

lemma S1_empty_run:
  "BinSumsInteractionInternal real_floats True k_regression k_dynamicDimensions S1_empty_shell S1_term =
     Inl AssertionFailed"
  "BinSumsInteractionInternal real_floats False k_regression k_dynamicDimensions S1_empty_shell S1_term =
     Inr S1_empty_shell"
  by (simp_all add: BinSumsInteractionInternal_def BinSumsInteractionInternal_samples.simps
      GET_COUNT_CLASSES_def real_floats_def S1_empty_shell_def S1_term_def Let_def)

lemma K3_wide_run:
  "BinSumsInteractionInternal real_floats True (Classes 3) (Dimensions 2) K3_wide_shell S3_term =
     Inl AssertionFailed"
  "BinSumsInteractionInternal real_floats False (Classes 3) (Dimensions 2) K3_wide_shell S3_term =
     Inr (K3_wide_shell\<lparr>m_aBinsFast :=
       [zero_bin 3, zero_bin 3, zero_bin 3, zero_bin 3, zero_bin 3,
        \<lparr>m_cSamples = 1, m_weight = 2, m_aGradientPairs =
           [\<lparr>m_sumGradients = 2, m_sumHessians = 4\<rparr>, \<lparr>m_sumGradients = 6, m_sumHessians = 8\<rparr>,
            \<lparr>m_sumGradients = 10, m_sumHessians = 12\<rparr>]\<rparr>]\<rparr>)"
  by (simp_all add: BinSumsInteractionInternal_def BinSumsInteractionInternal_samples.simps
      BinSumsInteractionInternal_sample_def BinSumsInteractionInternal_dimensions.simps
      BinSumsInteractionInternal_scores.simps GET_COUNT_CLASSES_def real_floats_def K3_wide_shell_def
      S3_term_def zero_bin_def Let_def numeral_3_eq_3)

lemma S8_training_pre:
  "rmse_boosting_pre (\<lambda>x. x) S8_targets k_regression 1 S8_bag (Some [1, 2, 3, 4]) S8_training"
  by (simp add: rmse_boosting_pre_def S8_targets_def S8_bag_def S8_training_def gradients_boosting_def
      rmse_gradients_boosting_def bag_selects_def)

lemma S8_validation_pre:
  "rmse_boosting_pre (\<lambda>x. x) S8_targets k_regression (- 1) S8_bag None S8_validation"
  by (simp add: rmse_boosting_pre_def S8_targets_def S8_bag_def S8_validation_def gradients_boosting_def
      rmse_gradients_boosting_def bag_selects_def)

lemma S8_training_gradients:
  "rmse_gradients_boosting (\<lambda>x. x) S8_targets 1 S8_bag (Some [1, 2, 3, 4]) = [- 9, - 37, - 37, - 37]"
  by (simp add: rmse_gradients_boosting_def S8_targets_def S8_bag_def bag_selects_def rmse_gradient_def
      numeral_3_eq_3)

lemma S8_validation_gradients:
  "rmse_gradients_boosting (\<lambda>x. x) S8_targets (- 1) S8_bag None = [- 20, - 20, - 50]"
  by (simp add: rmse_gradients_boosting_def S8_targets_def S8_bag_def bag_selects_def rmse_gradient_def
      numeral_2_eq_2)

lemma S9_weighted_stream:
  "rmse_gradients_interaction (\<lambda>x. x) S9_targets S9_bag (Some [1, 2, 3]) (m_aSubsetsInteraction S9_weighted) =
     [- 18, - 18, - 185, - 185]"
  by (simp add: rmse_gradients_interaction_def S9_targets_def S9_bag_def S9_weighted_def bag_selects_def
      rmse_gradient_def weights_interaction_def weighted_def numeral_2_eq_2)

lemma S9_weighted_boosting_stream:
  "rmse_gradients_boosting (\<lambda>x. x) S9_targets 1 S9_bag (Some [1, 2, 3]) = [- 9, - 9, - 37, - 37]"
  by (simp add: rmse_gradients_boosting_def S9_targets_def S9_bag_def bag_selects_def
      rmse_gradient_def numeral_2_eq_2)

lemma S9_unweighted_stream:
  "rmse_gradients_interaction (\<lambda>x. x) S8_targets S8_bag (Some [1, 2, 3, 4]) (m_aSubsetsInteraction S9_unweighted) =
     [- 9, - 37, - 37, - 37]"
  by (simp add: rmse_gradients_interaction_def S8_targets_def S8_bag_def S9_unweighted_def bag_selects_def
      rmse_gradient_def weights_interaction_def weighted_def numeral_3_eq_3)

lemma S9_weighted_pre:
  "rmse_interaction_pre (\<lambda>x. x) S9_targets k_regression S9_bag (Some [1, 2, 3]) S9_weighted"
  unfolding rmse_interaction_pre_def S9_weighted_stream
  by (simp add: S9_targets_def S9_bag_def S9_weighted_def gradients_interaction_def run_start_def
      subset_start_def bag_selects_def upt_rec numeral_2_eq_2)

lemma S9_unweighted_pre:
  "rmse_interaction_pre (\<lambda>x. x) S8_targets k_regression S8_bag (Some [1, 2, 3, 4]) S9_unweighted"
  unfolding rmse_interaction_pre_def S9_unweighted_stream
  by (simp add: S8_targets_def S8_bag_def S9_unweighted_def gradients_interaction_def upt_rec)

lemma S9_negative_run:
  "InitializeRmseGradientsAndHessiansInteraction dbg (\<lambda>x. x) [10, 20] k_regression (Some [- 1, 1]) None
     S9_negative =
   Inr (S9_negative\<lparr>m_aSubsetsInteraction :=
          [\<lparr>m_aGradHessInteraction = [- 20], m_aWeightsInteraction = None\<rparr>]\<rparr>)"
  by (simp add: InitializeRmseGradientsAndHessiansInteraction_def S9_negative_def GetWeights_def
      InitializeRmseInteraction_loop.simps InitializeRmseInteraction_next.simps
      InitializeRmseInteraction_skip.simps InitializeRmseInteraction_write.simps
      ComputeGradientRegressionRmseInit_def Let_def)

text \<open>
  When the replicas of a sample go on from one subset to the next, \<open>pWeight\<close> is set to
  the first weight of the next subset while that sample is still being written: the
  sample after it is multiplied by that first weight (here 3, and not 5).
\<close>

lemma S9_straddling_run:
  "InitializeRmseGradientsAndHessiansInteraction dbg (\<lambda>x. x) [10, 20, 30] k_regression (Some [1, 2, 1]) None
     \<lparr>m_cSamplesInteraction = 4,
      m_aSubsetsInteraction =
        [\<lparr>m_aGradHessInteraction = [0, 0], m_aWeightsInteraction = Some [2, 3]\<rparr>,
         \<lparr>m_aGradHessInteraction = [0, 0 :: int], m_aWeightsInteraction = Some [3, 5]\<rparr>]\<rparr> =
   Inr \<lparr>m_cSamplesInteraction = 4,
        m_aSubsetsInteraction =
          [\<lparr>m_aGradHessInteraction = [- 20, - 60], m_aWeightsInteraction = Some [2, 3]\<rparr>,
           \<lparr>m_aGradHessInteraction = [- 60, - 90], m_aWeightsInteraction = Some [3, 5]\<rparr>]\<rparr>"
  by (simp add: InitializeRmseGradientsAndHessiansInteraction_def GetWeights_def
      InitializeRmseInteraction_loop.simps InitializeRmseInteraction_next.simps
      InitializeRmseInteraction_skip.simps InitializeRmseInteraction_write.simps
      ComputeGradientRegressionRmseInit_def Let_def)

lemma BinSumsInteraction_debug_above_max:
  assumes "2 \<le> k_cCompilerClassesMax k"
    and "m_cClasses (m_pInteractionCore pInteractionShell) = Classes K"
    and "k_cCompilerClassesMax k < K"
  shows "BinSumsInteraction_over k True Internal pInteractionShell pTerm = Inl AssertionFailed"
  using assms
  by (simp add: BinSumsInteraction_over_def Let_def)
     (subst BinSumsInteractionTarget.simps, simp)

section \<open>Tree-sweep record size\<close>

text \<open>
  C9. For every classification flag and score count, \<open>GetTreeSweepSize\<close> returns the
  header size of the tree-sweep record (the size of the record minus the size of its
  trailing inline bin) plus the byte size of one bin for these scores, added in
  \<open>size_t\<close>. \<open>IsOverflowTreeSweepSize\<close> (where its debug assertion on the bin size
  holds, or in a release build) answers whether that sum leaves the size type, and
  this is the case exactly when the returned size is not the true sum.
\<close>

theorem GetTreeSweepSize_header_plus_bin:
  "GetTreeSweepSize GetBinSize sizeofTreeSweep sizeofBestBinLeft bClassification cScores =
     (sizeofTreeSweep bClassification - sizeofBestBinLeft bClassification) +
       GetBinSize bClassification cScores
   \<and> (\<not> (dbg \<and> IsOverflowBinSize bClassification cScores) \<longrightarrow>
        IsOverflowTreeSweepSize dbg IsOverflowBinSize GetBinSize sizeofTreeSweep sizeofBestBinLeft
          bClassification cScores =
        Inr (2 ^ 64 \<le> unat (sizeofTreeSweep bClassification - sizeofBestBinLeft bClassification) +
               unat (GetBinSize bClassification cScores)))
   \<and> ((2 ^ 64 \<le> unat (sizeofTreeSweep bClassification - sizeofBestBinLeft bClassification) +
               unat (GetBinSize bClassification cScores)) =
        (unat (GetTreeSweepSize GetBinSize sizeofTreeSweep sizeofBestBinLeft bClassification cScores) \<noteq>
         unat (sizeofTreeSweep bClassification - sizeofBestBinLeft bClassification) +
               unat (GetBinSize bClassification cScores)))"
proof -
  let ?h = "sizeofTreeSweep bClassification - sizeofBestBinLeft bClassification"
  let ?b = "GetBinSize bClassification cScores"
  have size: "GetTreeSweepSize GetBinSize sizeofTreeSweep sizeofBestBinLeft bClassification cScores = ?h + ?b"
    by (simp add: GetTreeSweepSize_def)
  have ovf: "\<not> (dbg \<and> IsOverflowBinSize bClassification cScores) \<Longrightarrow>
        IsOverflowTreeSweepSize dbg IsOverflowBinSize GetBinSize sizeofTreeSweep sizeofBestBinLeft
          bClassification cScores = Inr (2 ^ 64 \<le> unat ?h + unat ?b)"
    by (auto simp: IsOverflowTreeSweepSize_def IsAddError_def Let_def)
  have m: "unat (?h + ?b) = (unat ?h + unat ?b) mod 2 ^ 64"
    by (simp add: unat_word_ariths)
  have ex: "(2 ^ 64 \<le> unat ?h + unat ?b) = (unat (?h + ?b) \<noteq> unat ?h + unat ?b)"
  proof (cases "unat ?h + unat ?b < 2 ^ 64")
    case True
    then show ?thesis using m by simp
  next
    case False
    have "unat (?h + ?b) < 2 ^ 64" using unsigned_less [of "?h + ?b"] by simp
    with False show ?thesis by linarith
  qed
  show ?thesis using size ovf ex by simp
qed

text \<open>
  A classification record of 40 bytes whose inline bin takes 32, and bins of
  \<open>16 + 16 * cScores\<close> bytes: three scores give \<open>8 + 64 = 72\<close> bytes, without overflow.
\<close>

theorem GetTreeSweepSize_header_plus_bin_witness:
  "\<not> (True \<and> (\<lambda>b c. False) True (3 :: size_t))
   \<and> IsOverflowTreeSweepSize True (\<lambda>b c. False) (\<lambda>b c. 16 + (if b then 16 else 8) * c)
        (\<lambda>b. if b then 40 else 32) (\<lambda>b. if b then 32 else 24) True 3 = Inr False
   \<and> GetTreeSweepSize (\<lambda>b c. 16 + (if b then 16 else 8) * c)
        (\<lambda>b. if b then 40 else 32) (\<lambda>b. if b then 32 else 24) True 3 = 72"
  using GetTreeSweepSize_header_plus_bin [of "\<lambda>b c. 16 + (if b then 16 else 8) * c"
      "\<lambda>b. if b then 40 else 32" "\<lambda>b. if b then 32 else 24" True 3 True "\<lambda>b c. False"]
  by simp

section \<open>The approximate comparison of the tests\<close>

text \<open>
  C10. \<open>IsApproxEqual\<close> is symmetric in its first two arguments, for every rounding
  and every percentage (so for every percentage from 0 up to 1): the answer and the
  failure count are the same when \<open>val\<close> and \<open>expected\<close> are exchanged. When either
  of them is a NaN or an infinity the answer is false, so a NaN is approximately equal
  to nothing, itself included.
\<close>

theorem IsApproxEqual_symmetric:
  "IsApproxEqual rnd val expected percentage g = IsApproxEqual rnd expected val percentage g
   \<and> (isnan val \<or> isinf val \<or> isnan expected \<or> isinf expected \<longrightarrow>
        \<not> fst (IsApproxEqual rnd val expected percentage g))"
proof
  show "IsApproxEqual rnd val expected percentage g = IsApproxEqual rnd expected val percentage g"
    by (cases val; cases expected) (auto simp: IsApproxEqual_def Let_def)
next
  show "isnan val \<or> isinf val \<or> isnan expected \<or> isinf expected \<longrightarrow>
        \<not> fst (IsApproxEqual rnd val expected percentage g)"
    by (auto simp: IsApproxEqual_def Let_def)
qed

text \<open>
  With exact rounding and a percentage of one tenth: 100 and 101 are approximately
  equal in either order, and a NaN is not approximately equal to a NaN.
\<close>

theorem IsApproxEqual_symmetric_witness:
  "isnan NaN
   \<and> \<not> fst (IsApproxEqual Finite NaN NaN (Finite (1 / 10)) 0)
   \<and> IsApproxEqual Finite (Finite 100) (Finite 101) (Finite (1 / 10)) 0 = (True, 0)
   \<and> IsApproxEqual Finite (Finite 101) (Finite 100) (Finite (1 / 10)) 0 = (True, 0)"
proof -
  have a: "IsApproxEqual Finite (Finite 100) (Finite 101) (Finite (1 / 10)) 0 = (True, 0)"
    by (simp add: IsApproxEqual_def Let_def fp_sub_def)
  show ?thesis
    using a IsApproxEqual_symmetric [of Finite NaN NaN "Finite (1 / 10)" 0]
      IsApproxEqual_symmetric [of Finite "Finite 100" "Finite 101" "Finite (1 / 10)" 0]
    by simp
qed

section \<open>The aggregation kernel\<close>

text \<open>
  C1. Under the preconditions of the kernel (\<open>binSums_pre\<close>), for every term of one or
  more features with two or more bins each and every dataset, in a release build and
  in a debug build whose assertions hold (\<open>debug_asserts\<close>), and for every instantiation
  whose dimension count is that of the term, the kernel returns, and the tensor it
  leaves is the one the spec describes (\<open>binSums\<close>): the samples are taken in order, and
  sample \<open>s\<close> changes exactly the bin at the flat index
  \<open>b0 + cBins[0] * (b1 + cBins[1] * (b2 + ...))\<close> of its bins, by \<open>count += 1\<close>,
  \<open>weight += w\<close> with \<open>w = weights[s]\<close> or exactly 1 without a weight array, and for
  each score \<open>k\<close> by \<open>sumGradients[k] += g[s,k] * w\<close> and, in a classification,
  \<open>sumHessians[k] += h[s,k] * w\<close>.
\<close>

theorem BinSumsInteractionInternal_aggregates:
  fixes pInteractionShell :: "('f :: {zero, one, plus, times, uminus, minus, ord}, 'b :: {zero, ord}) InteractionShell"
  assumes "binSums_pre (IsClassification cCompilerClasses)
             (GetCountScores (GET_COUNT_CLASSES cCompilerClasses (m_cClasses (m_pInteractionCore pInteractionShell))))
             pInteractionShell pTerm"
    and "GET_DIMENSIONS cCompilerDimensions (m_cSignificantDimensions pTerm) = length (m_aTermEntries pTerm)"
    and "dbg \<longrightarrow> debug_asserts env (IsClassification cCompilerClasses)
             (GetCountScores (GET_COUNT_CLASSES cCompilerClasses (m_cClasses (m_pInteractionCore pInteractionShell))))
             pTerm (m_dataFrame (m_pInteractionCore pInteractionShell)) (m_aBinsFast pInteractionShell)"
  shows "BinSumsInteractionInternal env dbg cCompilerClasses cCompilerDimensions pInteractionShell pTerm =
         Inr (pInteractionShell\<lparr>m_aBinsFast :=
                binSums (IsClassification cCompilerClasses)
                  (GetCountScores (GET_COUNT_CLASSES cCompilerClasses (m_cClasses (m_pInteractionCore pInteractionShell))))
                  pTerm (m_dataFrame (m_pInteractionCore pInteractionShell))
                  (m_aBinsFast pInteractionShell)\<rparr>)"
  using assms by (rule BinSumsInteractionInternal_refines)

text \<open>
  Scenario S3 with a second sample, in a debug build: the weight total 7 of the dataset
  is that of the weights 2 and 5. The sample in bin \<open>(1, 2)\<close> has the flat index
  \<open>1 + 2 * 2 = 5\<close>; bin 5 ends with count 1, weight 2 and gradient sum \<open>3 * 2\<close>, bin 0
  with count 1, weight 5 and gradient sum \<open>-1 * 5\<close>.
\<close>

theorem BinSumsInteractionInternal_aggregates_witness:
  "binSums_pre False 1 S3_shell S3_term
   \<and> GET_DIMENSIONS (Dimensions 2) (m_cSignificantDimensions S3_term) = length (m_aTermEntries S3_term)
   \<and> debug_asserts real_floats False 1 S3_term (m_dataFrame (m_pInteractionCore S3_shell)) (m_aBinsFast S3_shell)
   \<and> sample_index S3_term (m_dataFrame (m_pInteractionCore S3_shell)) 0 = 5
   \<and> BinSumsInteractionInternal real_floats True k_regression (Dimensions 2) S3_shell S3_term =
       Inr (S3_shell\<lparr>m_aBinsFast :=
         [\<lparr>m_cSamples = 1, m_weight = 5, m_aGradientPairs = [\<lparr>m_sumGradients = - 5, m_sumHessians = 0\<rparr>]\<rparr>,
          zero_bin 1, zero_bin 1, zero_bin 1, zero_bin 1,
          \<lparr>m_cSamples = 1, m_weight = 2, m_aGradientPairs = [\<lparr>m_sumGradients = 6, m_sumHessians = 0\<rparr>]\<rparr>]\<rparr>)"
proof -
  have d: "GET_DIMENSIONS (Dimensions 2) (m_cSignificantDimensions S3_term) = length (m_aTermEntries S3_term)"
    by (simp add: S3_term_def)
  have c: "GetCountScores (GET_COUNT_CLASSES k_regression (m_cClasses (m_pInteractionCore S3_shell))) = 1"
    by (simp add: GET_COUNT_CLASSES_def)
  show ?thesis
    using BinSumsInteractionInternal_aggregates [of k_regression S3_shell S3_term "Dimensions 2" True real_floats]
      S3_pre S3_binSums S3_index S3_debug d
    by (simp add: c)
qed

text \<open>
  C6. For every class count \<open>K\<close> and dimension count \<open>D\<close> (so for those on the ladders
  of the dispatcher), every dataset and every term, in a debug or a release build: the
  kernel instantiated with the runtime class count and the term's dimension count as
  template parameters returns what the generic kernel (dynamic classification, dynamic
  dimensions) returns on the same input, the same tensor or the same fault (both stop
  at the same assertion of a debug build); and for a regression the kernel with a fixed
  dimension count returns what the one with dynamic dimensions returns. Every sum is
  built by the same operations in the same order, so the results are equal as values
  of the float type.
\<close>

theorem BinSumsInteractionInternal_specialized_eq_dynamic:
  fixes pInteractionShell :: "('f :: {zero, one, plus, times, uminus, minus, ord}, 'b :: {zero, ord}) InteractionShell"
  shows "(m_cClasses (m_pInteractionCore pInteractionShell) = Classes K \<longrightarrow>
            BinSumsInteractionInternal env dbg (Classes K) (Dimensions (m_cSignificantDimensions pTerm))
              pInteractionShell pTerm =
            BinSumsInteractionInternal env dbg k_dynamicClassification k_dynamicDimensions pInteractionShell pTerm)
         \<and> BinSumsInteractionInternal env dbg k_regression (Dimensions (m_cSignificantDimensions pTerm))
              pInteractionShell pTerm =
            BinSumsInteractionInternal env dbg k_regression k_dynamicDimensions pInteractionShell pTerm"
  by (simp add: BinSumsInteractionInternal_def GET_COUNT_CLASSES_def Let_def)

text \<open>
  Three classes and two dimensions, in a debug build. With gradients in \<open>[-1, 1]\<close> and
  Hessians in \<open>[0, 0.25]\<close> the kernel specialised to \<open>(3, 2)\<close> and the generic kernel both
  leave the one sample of weight 2 in bin 5, with the doubled gradients and Hessians.
  With a Hessian of 2 both stop at the assertion on the Hessian.
\<close>

theorem BinSumsInteractionInternal_specialized_eq_dynamic_witness:
  "m_cSignificantDimensions S3_term = 2
   \<and> m_cClasses (m_pInteractionCore K3_shell) = Classes 3
   \<and> BinSumsInteractionInternal real_floats True (Classes 3) (Dimensions 2) K3_shell S3_term =
       Inr (K3_shell\<lparr>m_aBinsFast :=
         [zero_bin 3, zero_bin 3, zero_bin 3, zero_bin 3, zero_bin 3,
          \<lparr>m_cSamples = 1, m_weight = 2, m_aGradientPairs =
             [\<lparr>m_sumGradients = 1, m_sumHessians = 1 / 2\<rparr>, \<lparr>m_sumGradients = - 1 / 2, m_sumHessians = 1 / 4\<rparr>,
              \<lparr>m_sumGradients = 2, m_sumHessians = 1 / 8\<rparr>]\<rparr>]\<rparr>)
   \<and> BinSumsInteractionInternal real_floats True k_dynamicClassification k_dynamicDimensions K3_shell S3_term =
       Inr (K3_shell\<lparr>m_aBinsFast :=
         [zero_bin 3, zero_bin 3, zero_bin 3, zero_bin 3, zero_bin 3,
          \<lparr>m_cSamples = 1, m_weight = 2, m_aGradientPairs =
             [\<lparr>m_sumGradients = 1, m_sumHessians = 1 / 2\<rparr>, \<lparr>m_sumGradients = - 1 / 2, m_sumHessians = 1 / 4\<rparr>,
              \<lparr>m_sumGradients = 2, m_sumHessians = 1 / 8\<rparr>]\<rparr>]\<rparr>)
   \<and> m_cClasses (m_pInteractionCore K3_wide_shell) = Classes 3
   \<and> BinSumsInteractionInternal real_floats True (Classes 3) (Dimensions 2) K3_wide_shell S3_term =
       Inl AssertionFailed
   \<and> BinSumsInteractionInternal real_floats True k_dynamicClassification k_dynamicDimensions K3_wide_shell S3_term =
       Inl AssertionFailed"
proof -
  have d: "m_cSignificantDimensions S3_term = 2" by (simp add: S3_term_def)
  have k: "m_cClasses (m_pInteractionCore K3_shell) = Classes 3" by (simp add: K3_shell_def)
  have kw: "m_cClasses (m_pInteractionCore K3_wide_shell) = Classes 3" by (simp add: K3_wide_shell_def)
  have g: "GET_DIMENSIONS (Dimensions 2) (m_cSignificantDimensions S3_term) = length (m_aTermEntries S3_term)"
    by (simp add: S3_term_def)
  have s: "BinSumsInteractionInternal real_floats True (Classes 3) (Dimensions 2) K3_shell S3_term =
      Inr (K3_shell\<lparr>m_aBinsFast :=
        binSums True 3 S3_term (m_dataFrame (m_pInteractionCore K3_shell)) (m_aBinsFast K3_shell)\<rparr>)"
    using BinSumsInteractionInternal_refines [of "Classes 3" K3_shell S3_term "Dimensions 2" True real_floats]
      K3_pre K3_debug g
    by (simp add: GET_COUNT_CLASSES_def k)
  show ?thesis
    using BinSumsInteractionInternal_specialized_eq_dynamic [of K3_shell 3 real_floats True S3_term]
      BinSumsInteractionInternal_specialized_eq_dynamic [of K3_wide_shell 3 real_floats True S3_term]
      d k kw s K3_binSums K3_wide_run(1)
    by simp
qed

section \<open>The dispatcher\<close>

text \<open>
  The dispatcher in a release build, and in a debug build where the assertions of the
  ladders hold (\<open>dispatch_asserts\<close>). Whatever the kernel does, the dispatcher returns
  the result of one call of it, on the shell and term it was given, with these template
  parameters: for a regression the regression marker; for a classification with \<open>K\<close>
  classes \<open>K\<close> itself when \<open>2 \<le> K \<le> k_cCompilerClassesMax\<close> (the first match on the
  ladder) and the dynamic classification otherwise; and, for the dimensions, the term's
  count \<open>D\<close> of significant dimensions itself when
  \<open>2 \<le> D \<le> k_cCompilerOptimizedCountDimensionsMax\<close> and the dynamic dimensions
  otherwise. The constants are such that the ladders can be compiled.
\<close>

lemma BinSumsInteraction_dispatch:
  assumes "1 \<le> k_cCompilerClassesMax k"
    and "1 \<le> k_cCompilerOptimizedCountDimensionsMax k"
    and "k_cCompilerOptimizedCountDimensionsMax k \<le> k_cDimensionsMax k"
    and "dbg \<longrightarrow> dispatch_asserts k (m_cClasses (m_pInteractionCore pInteractionShell))
                   (m_cSignificantDimensions pTerm)"
  shows "BinSumsInteraction_over k dbg Internal pInteractionShell pTerm =
         Internal (dispatched_classes k (m_cClasses (m_pInteractionCore pInteractionShell)))
           (dispatched_dimensions k (m_cSignificantDimensions pTerm)) pInteractionShell pTerm"
proof -
  let ?rt = "m_cClasses (m_pInteractionCore pInteractionShell)"
  have dims: "dbg \<longrightarrow> 1 \<le> m_cSignificantDimensions pTerm \<and> m_cSignificantDimensions pTerm \<le> k_cDimensionsMax k"
    using assms(4) by (simp add: dispatch_asserts_def)
  have ladder: "BinSumsInteractionDimensions k dbg Internal C 2 pInteractionShell pTerm =
      Internal C (dispatched_dimensions k (m_cSignificantDimensions pTerm)) pInteractionShell pTerm" for C
    using BinSumsInteractionDimensions_ladder [OF assms(3) dims, of 2 Internal C pInteractionShell] assms(2)
    by (simp add: dispatched_dimensions_def)
  show ?thesis
  proof (cases "IsClassification ?rt")
    case False
    then have "?rt = k_regression" by (cases ?rt) auto
    then show ?thesis using ladder [of k_regression]
      by (simp add: BinSumsInteraction_over_def Let_def)
  next
    case True
    have d: "dbg \<longrightarrow> (\<exists>K. ?rt = Classes K \<and> 2 \<le> K \<and> K \<le> k_cCompilerClassesMax k)"
      using assms(4) True by (cases ?rt) (auto simp: dispatch_asserts_def)
    have "(case ?rt of Classes K \<Rightarrow> if 2 \<le> K \<and> K \<le> k_cCompilerClassesMax k then Classes K else k_dynamicClassification
            | _ \<Rightarrow> k_dynamicClassification) = dispatched_classes k ?rt"
      using True by (cases ?rt) auto
    then show ?thesis
      using BinSumsInteractionTarget_ladder [OF d True, of Internal pTerm] assms(1) True ladder
      by (simp add: BinSumsInteraction_over_def Let_def)
  qed
qed

text \<open>
  With ladders up to 8 classes and 3 dimensions: 3 classes and 2 dimensions reach the
  kernel specialised to \<open>(3, 2)\<close>; 12 classes and 1 dimension reach the fully dynamic
  kernel (release build); a regression over 3 dimensions reaches the regression kernel
  for 3 dimensions.
\<close>

lemma BinSumsInteraction_dispatch_examples:
  "1 \<le> k_cCompilerClassesMax ladder_constants
   \<and> 1 \<le> k_cCompilerOptimizedCountDimensionsMax ladder_constants
   \<and> k_cCompilerOptimizedCountDimensionsMax ladder_constants \<le> k_cDimensionsMax ladder_constants
   \<and> dispatch_asserts ladder_constants (Classes 3) 2
   \<and> BinSumsInteraction_over ladder_constants True (\<lambda>C D s t. Inr (C, D))
         (classes_shell (Classes 3)) (dimensions_term 2) = Inr (Classes 3, Dimensions 2)
   \<and> BinSumsInteraction_over ladder_constants False (\<lambda>C D s t. Inr (C, D))
         (classes_shell (Classes 12)) (dimensions_term 1) = Inr (k_dynamicClassification, k_dynamicDimensions)
   \<and> BinSumsInteraction_over ladder_constants True (\<lambda>C D s t. Inr (C, D))
         (classes_shell k_regression) (dimensions_term 3) = Inr (k_regression, Dimensions 3)"
  using BinSumsInteraction_dispatch [of ladder_constants True "classes_shell (Classes 3)" "dimensions_term 2"
      "\<lambda>C D s t. Inr (C, D)"]
    BinSumsInteraction_dispatch [of ladder_constants False "classes_shell (Classes 12)" "dimensions_term 1"
      "\<lambda>C D s t. Inr (C, D)"]
    BinSumsInteraction_dispatch [of ladder_constants True "classes_shell k_regression" "dimensions_term 3"
      "\<lambda>C D s t. Inr (C, D)"]
  by (simp add: ladder_constants_def classes_shell_def dimensions_term_def dispatch_asserts_def
      dispatched_dimensions_def)

text \<open>
  C7. The claim fails in a debug build for a class count above \<open>k_cCompilerClassesMax\<close>.
  \<open>BinSumsInteraction\<close> enters the ladder of the classes at \<open>BinSumsInteractionTarget<2>\<close>
  for every classification, and every step of the ladder asserts
  \<open>cRuntimeClasses <= k_cCompilerClassesMax\<close>; the end of the ladder, which calls the
  kernel for the dynamic classification, asserts \<open>k_cCompilerClassesMax <
  cRuntimeClasses\<close>: no class count passes both. With ladders up to 8 classes and 3
  dimensions, for 9 classes and a term of 2 dimensions, and whatever the kernel
  \<open>Internal\<close> is: the debug build stops at the first assertion and the kernel is not
  called; the release build calls the kernel for the dynamic classification and 2
  dimensions, as the claim says.
\<close>

theorem BinSumsInteraction_debug_stops_above_max:
  "BinSumsInteraction_over ladder_constants True Internal (classes_shell (Classes 9)) (dimensions_term 2) =
     Inl AssertionFailed
   \<and> BinSumsInteraction_over ladder_constants False Internal (classes_shell (Classes 9)) (dimensions_term 2) =
       Internal k_dynamicClassification (Dimensions 2) (classes_shell (Classes 9)) (dimensions_term 2)"
proof -
  have a: "2 \<le> k_cCompilerClassesMax ladder_constants"
    "m_cClasses (m_pInteractionCore (classes_shell (Classes 9))) = Classes 9"
    "k_cCompilerClassesMax ladder_constants < 9"
    by (simp_all add: ladder_constants_def classes_shell_def)
  have "BinSumsInteraction_over ladder_constants False Internal (classes_shell (Classes 9)) (dimensions_term 2) =
      Internal (dispatched_classes ladder_constants (m_cClasses (m_pInteractionCore (classes_shell (Classes 9)))))
        (dispatched_dimensions ladder_constants (m_cSignificantDimensions (dimensions_term 2)))
        (classes_shell (Classes 9)) (dimensions_term 2)"
    by (rule BinSumsInteraction_dispatch) (simp_all add: ladder_constants_def)
  then show ?thesis
    using BinSumsInteraction_debug_above_max [OF a, of Internal "dimensions_term 2"]
    by (simp add: ladder_constants_def classes_shell_def dimensions_term_def dispatched_dimensions_def)
qed

section \<open>What the aggregation leaves alone, and its totals\<close>

text \<open>
  C8. Under the preconditions of the kernel, in a release build and in a debug build
  whose assertions hold (\<open>debug_asserts\<close>), it returns a shell whose core (the dataset
  with its gradient and Hessian buffer, its bin-index columns and its weight array, and
  the class count) is the one it was given: only the tensor is written. The tensor
  keeps its length, and every bin whose flat index is not the index of some sample
  keeps its prior contents.
\<close>

theorem BinSumsInteractionInternal_frame:
  fixes pInteractionShell :: "('f :: {zero, one, plus, times, uminus, minus, ord}, 'b :: {zero, ord}) InteractionShell"
  assumes "binSums_pre (IsClassification cCompilerClasses)
             (GetCountScores (GET_COUNT_CLASSES cCompilerClasses (m_cClasses (m_pInteractionCore pInteractionShell))))
             pInteractionShell pTerm"
    and "GET_DIMENSIONS cCompilerDimensions (m_cSignificantDimensions pTerm) = length (m_aTermEntries pTerm)"
    and "dbg \<longrightarrow> debug_asserts env (IsClassification cCompilerClasses)
             (GetCountScores (GET_COUNT_CLASSES cCompilerClasses (m_cClasses (m_pInteractionCore pInteractionShell))))
             pTerm (m_dataFrame (m_pInteractionCore pInteractionShell)) (m_aBinsFast pInteractionShell)"
  shows "\<exists>pInteractionShell'.
           BinSumsInteractionInternal env dbg cCompilerClasses cCompilerDimensions pInteractionShell pTerm =
             Inr pInteractionShell' \<and>
           m_pInteractionCore pInteractionShell' = m_pInteractionCore pInteractionShell \<and>
           length (m_aBinsFast pInteractionShell') = length (m_aBinsFast pInteractionShell) \<and>
           (\<forall>j. j \<notin> sample_index pTerm (m_dataFrame (m_pInteractionCore pInteractionShell)) `
                      {0..<m_cSamplesDataSet (m_dataFrame (m_pInteractionCore pInteractionShell))} \<longrightarrow>
                m_aBinsFast pInteractionShell' ! j = m_aBinsFast pInteractionShell ! j)"
  using BinSumsInteractionInternal_refines [OF assms]
    binSums_frame [of "IsClassification cCompilerClasses"
      "GetCountScores (GET_COUNT_CLASSES cCompilerClasses (m_cClasses (m_pInteractionCore pInteractionShell)))"
      pTerm "m_dataFrame (m_pInteractionCore pInteractionShell)" "m_aBinsFast pInteractionShell"]
  by simp

text \<open>
  Scenario S1 in a debug build: one sample at bin 1 of a feature with 3 bins, and a
  weight total of 1. After the aggregation bin 1 holds count 1, weight 1 and gradient
  sum \<open>-3\<close>, and bins 0 and 2 are still zero.
\<close>

theorem BinSumsInteractionInternal_frame_witness:
  "binSums_pre False 1 S1_shell S1_term
   \<and> GET_DIMENSIONS k_dynamicDimensions (m_cSignificantDimensions S1_term) = length (m_aTermEntries S1_term)
   \<and> debug_asserts real_floats False 1 S1_term (m_dataFrame (m_pInteractionCore S1_shell)) (m_aBinsFast S1_shell)
   \<and> sample_index S1_term (m_dataFrame (m_pInteractionCore S1_shell)) 0 = 1
   \<and> (\<exists>pInteractionShell'.
         BinSumsInteractionInternal real_floats True k_regression k_dynamicDimensions S1_shell S1_term =
           Inr pInteractionShell' \<and>
         m_pInteractionCore pInteractionShell' = m_pInteractionCore S1_shell \<and>
         m_aBinsFast pInteractionShell' ! 0 = zero_bin 1 \<and>
         m_aBinsFast pInteractionShell' ! 1 =
           \<lparr>m_cSamples = 1, m_weight = 1,
              m_aGradientPairs = [\<lparr>m_sumGradients = - 3, m_sumHessians = 0\<rparr>]\<rparr> \<and>
         m_aBinsFast pInteractionShell' ! 2 = zero_bin 1)"
proof -
  have d: "GET_DIMENSIONS k_dynamicDimensions (m_cSignificantDimensions S1_term) = length (m_aTermEntries S1_term)"
    by (simp add: S1_term_def)
  have c: "GetCountScores (GET_COUNT_CLASSES k_regression (m_cClasses (m_pInteractionCore S1_shell))) = 1"
    by (simp add: GET_COUNT_CLASSES_def)
  have p: "binSums_pre (IsClassification k_regression)
      (GetCountScores (GET_COUNT_CLASSES k_regression (m_cClasses (m_pInteractionCore S1_shell)))) S1_shell S1_term"
    using S1_pre by (simp add: c)
  have a: "True \<longrightarrow> debug_asserts real_floats (IsClassification k_regression)
      (GetCountScores (GET_COUNT_CLASSES k_regression (m_cClasses (m_pInteractionCore S1_shell))))
      S1_term (m_dataFrame (m_pInteractionCore S1_shell)) (m_aBinsFast S1_shell)"
    using S1_debug by (simp add: c)
  from BinSumsInteractionInternal_frame [OF p d a]
  obtain s' where s': "BinSumsInteractionInternal real_floats True k_regression k_dynamicDimensions S1_shell S1_term = Inr s'"
    "m_pInteractionCore s' = m_pInteractionCore S1_shell"
    "\<forall>j. j \<notin> sample_index S1_term (m_dataFrame (m_pInteractionCore S1_shell)) `
               {0..<m_cSamplesDataSet (m_dataFrame (m_pInteractionCore S1_shell))} \<longrightarrow>
         m_aBinsFast s' ! j = m_aBinsFast S1_shell ! j"
    by blast
  have n: "{0..<m_cSamplesDataSet (m_dataFrame (m_pInteractionCore S1_shell))} = {0}"
    by (auto simp: S1_shell_def)
  have "m_aBinsFast s' ! 0 = m_aBinsFast S1_shell ! 0" "m_aBinsFast s' ! 2 = m_aBinsFast S1_shell ! 2"
    using s'(3) by (simp_all add: n S1_index)
  then have z: "m_aBinsFast s' ! 0 = zero_bin 1" "m_aBinsFast s' ! 2 = zero_bin 1"
    by (simp_all add: S1_shell_def)
  have "BinSumsInteractionInternal real_floats True k_regression k_dynamicDimensions S1_shell S1_term =
      Inr (S1_shell\<lparr>m_aBinsFast := [zero_bin 1,
        \<lparr>m_cSamples = 1, m_weight = 1, m_aGradientPairs = [\<lparr>m_sumGradients = - 3, m_sumHessians = 0\<rparr>]\<rparr>,
        zero_bin 1]\<rparr>)"
    using BinSumsInteractionInternal_refines [OF p d a] S1_binSums by (simp add: c)
  with s'(1) have o: "m_aBinsFast s' ! 1 =
      \<lparr>m_cSamples = 1, m_weight = 1, m_aGradientPairs = [\<lparr>m_sumGradients = - 3, m_sumHessians = 0\<rparr>]\<rparr>"
    by auto
  show ?thesis using S1_pre d S1_debug S1_index s'(1,2) z o by blast
qed

text \<open>
  C4. On a zeroed tensor, under the preconditions of the kernel and for a sample count
  that is a \<open>size_t\<close>, in a release build and in a debug build whose assertions hold
  (\<open>debug_asserts\<close>), the counts of all bins sum to the number of samples of the
  dataset. Without a weight array, and for a float type that counts exactly up to the
  number of samples, the weight of every bin is its count, and the float sum of the
  weights of all bins (taken in the order of the bins) is the sum of the counts.
\<close>

theorem BinSumsInteractionInternal_count_total:
  fixes pInteractionShell :: "('f :: {zero, one, plus, times, uminus, minus, ord}, 'b :: {zero, ord}) InteractionShell"
    and emb :: "nat \<Rightarrow> 'f"
  assumes "binSums_pre (IsClassification cCompilerClasses)
             (GetCountScores (GET_COUNT_CLASSES cCompilerClasses (m_cClasses (m_pInteractionCore pInteractionShell))))
             pInteractionShell pTerm"
    and "GET_DIMENSIONS cCompilerDimensions (m_cSignificantDimensions pTerm) = length (m_aTermEntries pTerm)"
    and "dbg \<longrightarrow> debug_asserts env (IsClassification cCompilerClasses)
             (GetCountScores (GET_COUNT_CLASSES cCompilerClasses (m_cClasses (m_pInteractionCore pInteractionShell))))
             pTerm (m_dataFrame (m_pInteractionCore pInteractionShell)) (m_aBinsFast pInteractionShell)"
    and "zeroed (m_aBinsFast pInteractionShell)"
    and "m_cSamplesDataSet (m_dataFrame (m_pInteractionCore pInteractionShell)) < 2 ^ 64"
  shows "\<exists>pInteractionShell'.
           BinSumsInteractionInternal env dbg cCompilerClasses cCompilerDimensions pInteractionShell pTerm =
             Inr pInteractionShell' \<and>
           unat (sum_list (map m_cSamples (m_aBinsFast pInteractionShell'))) =
             m_cSamplesDataSet (m_dataFrame (m_pInteractionCore pInteractionShell)) \<and>
           (m_aWeights (m_dataFrame (m_pInteractionCore pInteractionShell)) = None \<and>
            exact_counts emb (m_cSamplesDataSet (m_dataFrame (m_pInteractionCore pInteractionShell))) \<longrightarrow>
              foldl (+) 0 (map m_weight (m_aBinsFast pInteractionShell')) =
                emb (unat (sum_list (map m_cSamples (m_aBinsFast pInteractionShell')))) \<and>
              list_all (\<lambda>bin. m_weight bin = emb (unat (m_cSamples bin))) (m_aBinsFast pInteractionShell'))"
proof -
  let ?ds = "m_dataFrame (m_pInteractionCore pInteractionShell)"
  from assms(1) have feat: "list_all (feature_ok ?ds) (m_aTermEntries pTerm)"
    and len: "length (m_aBinsFast pInteractionShell) = prod_list (term_bins pTerm)"
    by (simp_all add: binSums_pre_def Let_def)
  have zero: "list_all (\<lambda>bin. m_cSamples bin = 0 \<and> m_weight bin = 0) (m_aBinsFast pInteractionShell)"
    using assms(4) by (simp add: zeroed_def list_all_iff)
  show ?thesis
    using BinSumsInteractionInternal_refines [OF assms(1,2,3)]
      binSums_count_total [OF feat len zero assms(5)]
      binSums_weight_is_count [OF feat len zero assms(5), of emb]
    by simp
qed

text \<open>
  The two samples of scenario S3 without weights, in a debug build (the weight total
  of the dataset is 2): the counts sum to 2 and so do the weights.
\<close>

theorem BinSumsInteractionInternal_count_total_witness:
  "binSums_pre False 1 S3_unweighted_shell S3_term
   \<and> GET_DIMENSIONS (Dimensions 2) (m_cSignificantDimensions S3_term) = length (m_aTermEntries S3_term)
   \<and> debug_asserts real_floats False 1 S3_term (m_dataFrame (m_pInteractionCore S3_unweighted_shell))
       (m_aBinsFast S3_unweighted_shell)
   \<and> zeroed (m_aBinsFast S3_unweighted_shell)
   \<and> m_aWeights (m_dataFrame (m_pInteractionCore S3_unweighted_shell)) = None
   \<and> exact_counts real 2
   \<and> (\<exists>pInteractionShell'.
         BinSumsInteractionInternal real_floats True k_regression (Dimensions 2) S3_unweighted_shell S3_term =
           Inr pInteractionShell' \<and>
         unat (sum_list (map m_cSamples (m_aBinsFast pInteractionShell'))) = 2 \<and>
         foldl (+) 0 (map m_weight (m_aBinsFast pInteractionShell')) = 2)"
proof -
  have d: "GET_DIMENSIONS (Dimensions 2) (m_cSignificantDimensions S3_term) = length (m_aTermEntries S3_term)"
    by (simp add: S3_term_def)
  have c: "GetCountScores (GET_COUNT_CLASSES k_regression (m_cClasses (m_pInteractionCore S3_unweighted_shell))) = 1"
    by (simp add: GET_COUNT_CLASSES_def)
  have p: "binSums_pre (IsClassification k_regression)
      (GetCountScores (GET_COUNT_CLASSES k_regression (m_cClasses (m_pInteractionCore S3_unweighted_shell))))
      S3_unweighted_shell S3_term"
    using S3u_pre by (simp add: c)
  have a: "True \<longrightarrow> debug_asserts real_floats (IsClassification k_regression)
      (GetCountScores (GET_COUNT_CLASSES k_regression (m_cClasses (m_pInteractionCore S3_unweighted_shell))))
      S3_term (m_dataFrame (m_pInteractionCore S3_unweighted_shell)) (m_aBinsFast S3_unweighted_shell)"
    using S3u_debug by (simp add: c)
  have z: "zeroed (m_aBinsFast S3_unweighted_shell)"
    by (simp add: zeroed_def S3_unweighted_shell_def zero_bin_def)
  have n: "m_cSamplesDataSet (m_dataFrame (m_pInteractionCore S3_unweighted_shell)) = 2"
    and w: "m_aWeights (m_dataFrame (m_pInteractionCore S3_unweighted_shell)) = None"
    by (simp_all add: S3_unweighted_shell_def)
  have b: "m_cSamplesDataSet (m_dataFrame (m_pInteractionCore S3_unweighted_shell)) < 2 ^ 64"
    by (simp add: n)
  from BinSumsInteractionInternal_count_total [OF p d a z b, of real]
  obtain s' where k: "BinSumsInteractionInternal real_floats True k_regression (Dimensions 2) S3_unweighted_shell S3_term = Inr s'"
    and u: "unat (sum_list (map m_cSamples (m_aBinsFast s'))) =
              m_cSamplesDataSet (m_dataFrame (m_pInteractionCore S3_unweighted_shell))"
    and i: "m_aWeights (m_dataFrame (m_pInteractionCore S3_unweighted_shell)) = None \<and>
            exact_counts real (m_cSamplesDataSet (m_dataFrame (m_pInteractionCore S3_unweighted_shell))) \<longrightarrow>
              foldl (+) 0 (map m_weight (m_aBinsFast s')) =
                real (unat (sum_list (map m_cSamples (m_aBinsFast s')))) \<and>
              list_all (\<lambda>bin. m_weight bin = real (unat (m_cSamples bin))) (m_aBinsFast s')"
    by blast
  have e: "exact_counts real (m_cSamplesDataSet (m_dataFrame (m_pInteractionCore S3_unweighted_shell)))"
    by (rule exact_counts_real)
  from i w e have "foldl (+) 0 (map m_weight (m_aBinsFast s')) =
      real (unat (sum_list (map m_cSamples (m_aBinsFast s'))))" by blast
  then have f: "foldl (+) 0 (map m_weight (m_aBinsFast s')) = 2"
    unfolding u n by simp
  have u2: "unat (sum_list (map m_cSamples (m_aBinsFast s'))) = 2"
    using u n by simp
  show ?thesis using S3u_pre d S3u_debug z w exact_counts_real [of 2] k u2 f by blast
qed

text \<open>
  C5, as stated, fails: the kernel adds \<open>h * w\<close> to the Hessian sum, so a weight above
  1 takes the sum above a quarter of the count. In scenario S4 with weight 4 the one
  sample has a Hessian of \<open>0.25\<close> and a gradient of \<open>-0.5\<close>, both in range, and the
  assertions of a debug build hold; its bin ends with count 1 and Hessian sum 1, which
  is not below \<open>0.25 * 1\<close> plus a slack of a half. All values are small dyadic
  fractions, so floating-point arithmetic gives them exactly.
\<close>

theorem hessian_bound_by_count_counterexample:
  "binSums_pre True 1 S4_weighted_shell S4_term
   \<and> zeroed (m_aBinsFast S4_weighted_shell)
   \<and> hessians_in_range real_floats 1 (m_dataFrame (m_pInteractionCore S4_weighted_shell))
   \<and> sample_gradient True 1 (m_dataFrame (m_pInteractionCore S4_weighted_shell)) 0 0 = - 1 / 2
   \<and> debug_asserts real_floats True 1 S4_term (m_dataFrame (m_pInteractionCore S4_weighted_shell))
       (m_aBinsFast S4_weighted_shell)
   \<and> BinSumsInteractionInternal real_floats True (Classes 2) k_dynamicDimensions S4_weighted_shell S4_term =
       Inr (S4_weighted_shell\<lparr>m_aBinsFast :=
         [\<lparr>m_cSamples = 1, m_weight = 4,
            m_aGradientPairs = [\<lparr>m_sumGradients = - 2, m_sumHessians = 1\<rparr>]\<rparr>,
          zero_bin 1]\<rparr>)
   \<and> \<not> hessian_bound_by_count (1 / 2)
         [\<lparr>m_cSamples = 1, m_weight = 4,
            m_aGradientPairs = [\<lparr>m_sumGradients = - 2, m_sumHessians = 1\<rparr>]\<rparr>,
          zero_bin 1]"
  using S4w_pre S4w_ranges S4w_debug S4w_kernel [of True]
  by (simp add: hessian_bound_by_count_def)

text \<open>
  C5, amended. For every float type whose sums and products of values that are not
  negative are not negative and grow with their arguments (\<open>monotone_floats\<close>: IEEE
  arithmetic in every rounding mode, with its infinities and \<open>NaN\<close>), for every
  classification on a zeroed tensor under the preconditions of the kernel, with every
  per-sample Hessian in \<open>[0, 0.25]\<close> and every weight finite and not negative, in a
  release build and in a debug build whose assertions hold (\<open>debug_asserts\<close>, which has
  the range \<open>[-1, 1]\<close> of the gradients): the kernel returns, and every Hessian sum of
  every bin \<open>i\<close> satisfies \<open>0 \<le> sumHessians \<le> quarter_sum i\<close>, where \<open>quarter_sum i\<close> is
  the float sum of \<open>0.25 * w\<close> over the samples of the bin, in their order. No slack is
  needed: rounding is inside \<open>quarter_sum\<close>. The weights are to be finite: a Hessian of
  0 with the weight \<open>+inf\<close> gives the Hessian sum \<open>NaN\<close> (lemma \<open>S4_infinite_run\<close>).
  Where the multiplication by \<open>0.25\<close> is exact (\<open>exact_scaling\<close>), \<open>quarter_sum i\<close> is
  \<open>0.25 * weight\<close> of the bin. Without a weight array, and where quarters add up exactly
  up to the number of samples (\<open>exact_quarters\<close>), it is the float of \<open>0.25 * count\<close>.
\<close>

theorem BinSumsInteractionInternal_hessian_bound:
  fixes pInteractionShell :: "('f :: {zero, one, plus, times, uminus, minus, ord}, 'b :: {zero, ord}) InteractionShell"
    and embq :: "nat \<Rightarrow> 'f"
  assumes "IsClassification cCompilerClasses"
    and "binSums_pre True
             (GetCountScores (GET_COUNT_CLASSES cCompilerClasses (m_cClasses (m_pInteractionCore pInteractionShell))))
             pInteractionShell pTerm"
    and "GET_DIMENSIONS cCompilerDimensions (m_cSignificantDimensions pTerm) = length (m_aTermEntries pTerm)"
    and "dbg \<longrightarrow> debug_asserts env True
             (GetCountScores (GET_COUNT_CLASSES cCompilerClasses (m_cClasses (m_pInteractionCore pInteractionShell))))
             pTerm (m_dataFrame (m_pInteractionCore pInteractionShell)) (m_aBinsFast pInteractionShell)"
    and "zeroed (m_aBinsFast pInteractionShell)"
    and "m_cSamplesDataSet (m_dataFrame (m_pInteractionCore pInteractionShell)) < 2 ^ 64"
    and "monotone_floats env"
    and "hessians_in_range env
           (GetCountScores (GET_COUNT_CLASSES cCompilerClasses (m_cClasses (m_pInteractionCore pInteractionShell))))
           (m_dataFrame (m_pInteractionCore pInteractionShell))"
    and "weights_nonnegative env (m_dataFrame (m_pInteractionCore pInteractionShell))"
  shows "\<exists>pInteractionShell'.
           BinSumsInteractionInternal env dbg cCompilerClasses cCompilerDimensions pInteractionShell pTerm =
             Inr pInteractionShell' \<and>
           hessian_bound_by_quarters env pTerm (m_dataFrame (m_pInteractionCore pInteractionShell))
             (m_aBinsFast pInteractionShell') \<and>
           (exact_scaling env \<longrightarrow>
              (\<forall>i < length (m_aBinsFast pInteractionShell').
                 quarter_sum env pTerm (m_dataFrame (m_pInteractionCore pInteractionShell))
                   (m_cSamplesDataSet (m_dataFrame (m_pInteractionCore pInteractionShell))) i =
                 FloatFast_quarter env * m_weight (m_aBinsFast pInteractionShell' ! i))) \<and>
           (m_aWeights (m_dataFrame (m_pInteractionCore pInteractionShell)) = None \<and>
            exact_quarters env embq (m_cSamplesDataSet (m_dataFrame (m_pInteractionCore pInteractionShell))) \<longrightarrow>
              (\<forall>i < length (m_aBinsFast pInteractionShell').
                 quarter_sum env pTerm (m_dataFrame (m_pInteractionCore pInteractionShell))
                   (m_cSamplesDataSet (m_dataFrame (m_pInteractionCore pInteractionShell))) i =
                 embq (unat (m_cSamples (m_aBinsFast pInteractionShell' ! i)))))"
proof -
  let ?ds = "m_dataFrame (m_pInteractionCore pInteractionShell)"
  let ?c = "GetCountScores (GET_COUNT_CLASSES cCompilerClasses (m_cClasses (m_pInteractionCore pInteractionShell)))"
  let ?bins = "binSums True ?c pTerm ?ds (m_aBinsFast pInteractionShell)"
  from assms(2) have feat: "list_all (feature_ok ?ds) (m_aTermEntries pTerm)"
    and len: "length (m_aBinsFast pInteractionShell) = prod_list (term_bins pTerm)"
    and pairs: "list_all (\<lambda>bin. length (m_aGradientPairs bin) = ?c) (m_aBinsFast pInteractionShell)"
    by (simp_all add: binSums_pre_def Let_def)
  have zero: "list_all (\<lambda>bin. m_cSamples bin = 0 \<and> m_weight bin = 0) (m_aBinsFast pInteractionShell)"
    using assms(5) by (simp add: zeroed_def list_all_iff)
  have l: "length ?bins = length (m_aBinsFast pInteractionShell)"
    using binSums_frame [of True ?c pTerm ?ds "m_aBinsFast pInteractionShell"] by simp
  have k: "BinSumsInteractionInternal env dbg cCompilerClasses cCompilerDimensions pInteractionShell pTerm =
      Inr (pInteractionShell\<lparr>m_aBinsFast := ?bins\<rparr>)"
    using BinSumsInteractionInternal_refines [of cCompilerClasses pInteractionShell pTerm cCompilerDimensions dbg env]
      assms(1,2,3,4) by simp
  have b: "hessian_bound_by_quarters env pTerm ?ds ?bins"
    by (rule binSums_hessian_bounds [OF feat len pairs assms(5,7,8,9)])
  have s: "quarter_sum env pTerm ?ds (m_cSamplesDataSet ?ds) i = FloatFast_quarter env * m_weight (?bins ! i)"
    if "exact_scaling env" "i < length ?bins" for i
    using quarter_sum_exact_scaling [OF feat len zero that(1), of i True ?c] that(2) l by simp
  have q: "quarter_sum env pTerm ?ds (m_cSamplesDataSet ?ds) i = embq (unat (m_cSamples (?bins ! i)))"
    if "m_aWeights ?ds = None" "exact_quarters env embq (m_cSamplesDataSet ?ds)" "i < length ?bins" for i
    using quarter_sum_count [OF feat len zero assms(6) that(1,2), of i True ?c] that(3) l by simp
  show ?thesis using k b s q by simp
qed

text \<open>
  Scenario S4 in a debug build, over the real numbers. With weight 4: the Hessian sum
  is 1, and so is the \<open>quarter_sum\<close> of the bin, \<open>0.25 * 4\<close>. Without a weight array:
  the Hessian sum is \<open>0.25\<close>, and so is the \<open>quarter_sum\<close> of the bin, \<open>0.25 * 1\<close> for its
  count of 1. And scenario S4 with weight 4 over the \<open>double\<close> values, which have the
  infinities and \<open>NaN\<close>: the Hessian sum and the \<open>quarter_sum\<close> of the bin are 1.
\<close>

theorem BinSumsInteractionInternal_hessian_bound_witness:
  "IsClassification (Classes 2)
   \<and> monotone_floats real_floats
   \<and> exact_scaling real_floats
   \<and> exact_quarters real_floats (\<lambda>n. real n / 4) 1
   \<and> binSums_pre True 1 S4_weighted_shell S4_term
   \<and> debug_asserts real_floats True 1 S4_term (m_dataFrame (m_pInteractionCore S4_weighted_shell))
       (m_aBinsFast S4_weighted_shell)
   \<and> zeroed (m_aBinsFast S4_weighted_shell)
   \<and> hessians_in_range real_floats 1 (m_dataFrame (m_pInteractionCore S4_weighted_shell))
   \<and> weights_nonnegative real_floats (m_dataFrame (m_pInteractionCore S4_weighted_shell))
   \<and> (\<exists>pInteractionShell'.
         BinSumsInteractionInternal real_floats True (Classes 2) k_dynamicDimensions S4_weighted_shell S4_term =
           Inr pInteractionShell' \<and>
         hessian_bound_by_quarters real_floats S4_term (m_dataFrame (m_pInteractionCore S4_weighted_shell))
           (m_aBinsFast pInteractionShell') \<and>
         m_sumHessians (m_aGradientPairs (m_aBinsFast pInteractionShell' ! 0) ! 0) = 1 \<and>
         quarter_sum real_floats S4_term (m_dataFrame (m_pInteractionCore S4_weighted_shell)) 1 0 = 1 \<and>
         m_weight (m_aBinsFast pInteractionShell' ! 0) = 4)
   \<and> binSums_pre True 1 S4_shell S4_term
   \<and> debug_asserts real_floats True 1 S4_term (m_dataFrame (m_pInteractionCore S4_shell)) (m_aBinsFast S4_shell)
   \<and> zeroed (m_aBinsFast S4_shell)
   \<and> hessians_in_range real_floats 1 (m_dataFrame (m_pInteractionCore S4_shell))
   \<and> weights_nonnegative real_floats (m_dataFrame (m_pInteractionCore S4_shell))
   \<and> m_aWeights (m_dataFrame (m_pInteractionCore S4_shell)) = None
   \<and> (\<exists>pInteractionShell'.
         BinSumsInteractionInternal real_floats True (Classes 2) k_dynamicDimensions S4_shell S4_term =
           Inr pInteractionShell' \<and>
         hessian_bound_by_quarters real_floats S4_term (m_dataFrame (m_pInteractionCore S4_shell))
           (m_aBinsFast pInteractionShell') \<and>
         m_sumHessians (m_aGradientPairs (m_aBinsFast pInteractionShell' ! 0) ! 0) = 1 / 4 \<and>
         quarter_sum real_floats S4_term (m_dataFrame (m_pInteractionCore S4_shell)) 1 0 = 1 / 4 \<and>
         unat (m_cSamples (m_aBinsFast pInteractionShell' ! 0)) = 1)
   \<and> monotone_floats double_floats
   \<and> binSums_pre True 1 S4_double_shell S4_term
   \<and> debug_asserts double_floats True 1 S4_term (m_dataFrame (m_pInteractionCore S4_double_shell))
       (m_aBinsFast S4_double_shell)
   \<and> zeroed (m_aBinsFast S4_double_shell)
   \<and> hessians_in_range double_floats 1 (m_dataFrame (m_pInteractionCore S4_double_shell))
   \<and> weights_nonnegative double_floats (m_dataFrame (m_pInteractionCore S4_double_shell))
   \<and> (\<exists>pInteractionShell'.
         BinSumsInteractionInternal double_floats True (Classes 2) k_dynamicDimensions S4_double_shell S4_term =
           Inr pInteractionShell' \<and>
         hessian_bound_by_quarters double_floats S4_term (m_dataFrame (m_pInteractionCore S4_double_shell))
           (m_aBinsFast pInteractionShell') \<and>
         m_sumHessians (m_aGradientPairs (m_aBinsFast pInteractionShell' ! 0) ! 0) = Finite 1 \<and>
         quarter_sum double_floats S4_term (m_dataFrame (m_pInteractionCore S4_double_shell)) 1 0 = Finite 1 \<and>
         m_weight (m_aBinsFast pInteractionShell' ! 0) = Finite 4)"
proof -
  have cw: "GetCountScores (GET_COUNT_CLASSES (Classes 2) (m_cClasses (m_pInteractionCore S4_weighted_shell))) = 1"
    and c: "GetCountScores (GET_COUNT_CLASSES (Classes 2) (m_cClasses (m_pInteractionCore S4_shell))) = 1"
    by (simp_all add: GET_COUNT_CLASSES_def)
  have d: "GET_DIMENSIONS k_dynamicDimensions (m_cSignificantDimensions S4_term) = length (m_aTermEntries S4_term)"
    by (simp add: S4_term_def)
  have nw: "m_cSamplesDataSet (m_dataFrame (m_pInteractionCore S4_weighted_shell)) < 2 ^ 64"
    and n: "m_cSamplesDataSet (m_dataFrame (m_pInteractionCore S4_shell)) < 2 ^ 64"
    and none: "m_aWeights (m_dataFrame (m_pInteractionCore S4_shell)) = None"
    by (simp_all add: S4_weighted_shell_def S4_shell_def)
  have qw: "quarter_sum real_floats S4_term (m_dataFrame (m_pInteractionCore S4_weighted_shell)) 1 0 = 1"
    and q: "quarter_sum real_floats S4_term (m_dataFrame (m_pInteractionCore S4_shell)) 1 0 = 1 / 4"
    by (simp_all add: quarter_sum_def real_floats_def S4_weighted_shell_def S4_shell_def S4_term_def
        sample_index_def sample_bins_def term_bins_def sample_weight_def)
  have rw: "BinSumsInteractionInternal real_floats True (Classes 2) k_dynamicDimensions S4_weighted_shell S4_term =
      Inr (S4_weighted_shell\<lparr>m_aBinsFast :=
        [\<lparr>m_cSamples = 1, m_weight = 4, m_aGradientPairs = [\<lparr>m_sumGradients = - 2, m_sumHessians = 1\<rparr>]\<rparr>,
         zero_bin 1]\<rparr>)"
    by (rule S4w_kernel)
  have r: "BinSumsInteractionInternal real_floats True (Classes 2) k_dynamicDimensions S4_shell S4_term =
      Inr (S4_shell\<lparr>m_aBinsFast :=
        [\<lparr>m_cSamples = 1, m_weight = 1, m_aGradientPairs = [\<lparr>m_sumGradients = - 1 / 2, m_sumHessians = 1 / 4\<rparr>]\<rparr>,
         zero_bin 1]\<rparr>)"
    using BinSumsInteractionInternal_refines [of "Classes 2" S4_shell S4_term k_dynamicDimensions True
        real_floats] S4_pre S4_debug S4_binSums d
    by (simp add: c)
  have I: "IsClassification (Classes 2)" by simp
  have aw: "True \<longrightarrow> debug_asserts real_floats True 1 S4_term
      (m_dataFrame (m_pInteractionCore S4_weighted_shell)) (m_aBinsFast S4_weighted_shell)"
    and a: "True \<longrightarrow> debug_asserts real_floats True 1 S4_term
      (m_dataFrame (m_pInteractionCore S4_shell)) (m_aBinsFast S4_shell)"
    using S4w_debug S4_debug by simp_all
  have "\<exists>s'. BinSumsInteractionInternal real_floats True (Classes 2) k_dynamicDimensions S4_weighted_shell S4_term =
          Inr s' \<and>
        hessian_bound_by_quarters real_floats S4_term (m_dataFrame (m_pInteractionCore S4_weighted_shell))
          (m_aBinsFast s')"
    using BinSumsInteractionInternal_hessian_bound [of "Classes 2" S4_weighted_shell S4_term
        k_dynamicDimensions True real_floats "\<lambda>n. real n / 4", unfolded cw,
        OF I S4w_pre d aw S4w_ranges(1) nw real_floats_laws(1) S4w_ranges(2,3)]
    by blast
  then obtain sw where sw: "BinSumsInteractionInternal real_floats True (Classes 2) k_dynamicDimensions
        S4_weighted_shell S4_term = Inr sw"
      "hessian_bound_by_quarters real_floats S4_term (m_dataFrame (m_pInteractionCore S4_weighted_shell))
        (m_aBinsFast sw)"
    by blast
  from sw(1) rw have vw: "m_sumHessians (m_aGradientPairs (m_aBinsFast sw ! 0) ! 0) = 1"
    "m_weight (m_aBinsFast sw ! 0) = 4"
    by auto
  have "\<exists>s'. BinSumsInteractionInternal real_floats True (Classes 2) k_dynamicDimensions S4_shell S4_term =
          Inr s' \<and>
        hessian_bound_by_quarters real_floats S4_term (m_dataFrame (m_pInteractionCore S4_shell))
          (m_aBinsFast s')"
    using BinSumsInteractionInternal_hessian_bound [of "Classes 2" S4_shell S4_term
        k_dynamicDimensions True real_floats "\<lambda>n. real n / 4", unfolded c,
        OF I S4_pre d a S4_ranges(1) n real_floats_laws(1) S4_ranges(2,3)]
    by blast
  then obtain s where s: "BinSumsInteractionInternal real_floats True (Classes 2) k_dynamicDimensions
        S4_shell S4_term = Inr s"
      "hessian_bound_by_quarters real_floats S4_term (m_dataFrame (m_pInteractionCore S4_shell))
        (m_aBinsFast s)"
    by blast
  from s(1) r have v: "m_sumHessians (m_aGradientPairs (m_aBinsFast s ! 0) ! 0) = 1 / 4"
    "unat (m_cSamples (m_aBinsFast s ! 0)) = 1"
    by auto
  have A: "\<exists>pInteractionShell'.
         BinSumsInteractionInternal real_floats True (Classes 2) k_dynamicDimensions S4_weighted_shell S4_term =
           Inr pInteractionShell' \<and>
         hessian_bound_by_quarters real_floats S4_term (m_dataFrame (m_pInteractionCore S4_weighted_shell))
           (m_aBinsFast pInteractionShell') \<and>
         m_sumHessians (m_aGradientPairs (m_aBinsFast pInteractionShell' ! 0) ! 0) = 1 \<and>
         quarter_sum real_floats S4_term (m_dataFrame (m_pInteractionCore S4_weighted_shell)) 1 0 = 1 \<and>
         m_weight (m_aBinsFast pInteractionShell' ! 0) = 4"
    using sw vw qw by blast
  have B: "\<exists>pInteractionShell'.
         BinSumsInteractionInternal real_floats True (Classes 2) k_dynamicDimensions S4_shell S4_term =
           Inr pInteractionShell' \<and>
         hessian_bound_by_quarters real_floats S4_term (m_dataFrame (m_pInteractionCore S4_shell))
           (m_aBinsFast pInteractionShell') \<and>
         m_sumHessians (m_aGradientPairs (m_aBinsFast pInteractionShell' ! 0) ! 0) = 1 / 4 \<and>
         quarter_sum real_floats S4_term (m_dataFrame (m_pInteractionCore S4_shell)) 1 0 = 1 / 4 \<and>
         unat (m_cSamples (m_aBinsFast pInteractionShell' ! 0)) = 1"
    using s v q by blast
  have cd: "GetCountScores (GET_COUNT_CLASSES (Classes 2) (m_cClasses (m_pInteractionCore S4_double_shell))) = 1"
    by (simp add: GET_COUNT_CLASSES_def)
  have nd: "m_cSamplesDataSet (m_dataFrame (m_pInteractionCore S4_double_shell)) < 2 ^ 64"
    by (simp add: S4_double_shell_def)
  have qd: "quarter_sum double_floats S4_term (m_dataFrame (m_pInteractionCore S4_double_shell)) 1 0 = Finite 1"
    by (simp add: quarter_sum_def double_floats_def S4_double_shell_def S4_term_def
        sample_index_def sample_bins_def term_bins_def sample_weight_def double_arith)
  have ad: "True \<longrightarrow> debug_asserts double_floats True 1 S4_term
      (m_dataFrame (m_pInteractionCore S4_double_shell)) (m_aBinsFast S4_double_shell)"
    using S4d_debug by simp
  have rd: "BinSumsInteractionInternal double_floats True (Classes 2) k_dynamicDimensions S4_double_shell S4_term =
      Inr (S4_double_shell\<lparr>m_aBinsFast :=
        [\<lparr>m_cSamples = 1, m_weight = Finite 4,
           m_aGradientPairs = [\<lparr>m_sumGradients = Finite (- 2), m_sumHessians = Finite 1\<rparr>]\<rparr>,
         zero_bin 1]\<rparr>)"
    using BinSumsInteractionInternal_refines [of "Classes 2" S4_double_shell S4_term k_dynamicDimensions True
        double_floats] S4d_pre S4d_debug S4d_binSums d
    by (simp add: cd)
  have "\<exists>s'. BinSumsInteractionInternal double_floats True (Classes 2) k_dynamicDimensions S4_double_shell S4_term =
          Inr s' \<and>
        hessian_bound_by_quarters double_floats S4_term (m_dataFrame (m_pInteractionCore S4_double_shell))
          (m_aBinsFast s')"
    using BinSumsInteractionInternal_hessian_bound [of "Classes 2" S4_double_shell S4_term
        k_dynamicDimensions True double_floats "\<lambda>n. Finite (real n / 4)", unfolded cd,
        OF I S4d_pre d ad S4d_ranges(1) nd double_floats_laws(1) S4d_ranges(2,3)]
    by blast
  then obtain sd where sd: "BinSumsInteractionInternal double_floats True (Classes 2) k_dynamicDimensions
        S4_double_shell S4_term = Inr sd"
      "hessian_bound_by_quarters double_floats S4_term (m_dataFrame (m_pInteractionCore S4_double_shell))
        (m_aBinsFast sd)"
    by blast
  from sd(1) rd have vd: "m_sumHessians (m_aGradientPairs (m_aBinsFast sd ! 0) ! 0) = Finite 1"
    "m_weight (m_aBinsFast sd ! 0) = Finite 4"
    by auto
  have D: "\<exists>pInteractionShell'.
         BinSumsInteractionInternal double_floats True (Classes 2) k_dynamicDimensions S4_double_shell S4_term =
           Inr pInteractionShell' \<and>
         hessian_bound_by_quarters double_floats S4_term (m_dataFrame (m_pInteractionCore S4_double_shell))
           (m_aBinsFast pInteractionShell') \<and>
         m_sumHessians (m_aGradientPairs (m_aBinsFast pInteractionShell' ! 0) ! 0) = Finite 1 \<and>
         quarter_sum double_floats S4_term (m_dataFrame (m_pInteractionCore S4_double_shell)) 1 0 = Finite 1 \<and>
         m_weight (m_aBinsFast pInteractionShell' ! 0) = Finite 4"
    using sd vd qd by blast
  show ?thesis
    using I real_floats_laws(1,2) real_floats_laws(3) [of 1] S4w_pre S4w_debug S4w_ranges(1,2,3) A
      S4_pre S4_debug S4_ranges none B double_floats_laws(1) S4d_pre S4d_debug S4d_ranges D
    by blast
qed

section \<open>The RMSE initializers\<close>

text \<open>
  C2. For a bag, under the preconditions of the boosting initializer
  (\<open>rmse_boosting_pre\<close>), in a debug or a release build: the initializer returns, the
  subsets keep their sizes, and the gradient buffers, read one subset after the other,
  hold the gradients of the pass in order (as many of them as the buffers have
  entries). The gradients of the pass (\<open>rmse_gradients_boosting\<close>) are, for each
  selected sample in the order of the bag, its gradient \<open>initScore - target\<close> (with
  \<open>initScore = 0\<close> when there are no initial scores, which gives \<open>0 - target\<close>),
  \<open>|replication|\<close> times; the training pass (direction \<open>+1\<close>) selects exactly the
  samples with a positive bag entry and the validation pass (direction \<open>-1\<close>) exactly
  those with a negative one, and zero entries are skipped. The initial scores are
  indexed by the samples that are not excluded.
\<close>

theorem InitializeRmseGradientsAndHessiansBoosting_gradients:
  fixes pDataSet :: "('f :: {zero, minus}) DataSetBoosting"
  assumes "rmse_boosting_pre SafeConvertFloat aTargets cRuntimeClasses direction aBag aInitScores pDataSet"
  shows "\<exists>pDataSet'.
           InitializeRmseGradientsAndHessiansBoosting dbg SafeConvertFloat aTargets cRuntimeClasses
             direction (Some aBag) aInitScores pDataSet = Inr pDataSet' \<and>
           m_cSamplesBoosting pDataSet' = m_cSamplesBoosting pDataSet \<and>
           counts_boosting (m_aSubsetsBoosting pDataSet') = counts_boosting (m_aSubsetsBoosting pDataSet) \<and>
           gradients_boosting (m_aSubsetsBoosting pDataSet') =
             take (length (gradients_boosting (m_aSubsetsBoosting pDataSet)))
               (rmse_gradients_boosting SafeConvertFloat aTargets direction aBag aInitScores)"
proof -
  let ?xs = "m_aSubsetsBoosting pDataSet"
  from assms have reg: "IsRegression cRuntimeClasses" and n: "1 \<le> m_cSamplesBoosting pDataSet"
    and dir: "direction = 1 \<or> direction = - 1" and xs: "?xs \<noteq> []"
    and ne: "list_all (\<lambda>s. m_aGradHessBoosting s \<noteq> []) ?xs"
    and cap: "length (gradients_boosting ?xs) \<le>
        length (rmse_gradients_boosting SafeConvertFloat aTargets direction aBag aInitScores)"
    and tg: "length aBag \<le> length aTargets"
    and sc: "case aInitScores of None \<Rightarrow> True
             | Some scores \<Rightarrow> length (filter (\<lambda>r. r \<noteq> 0) aBag) \<le> length scores"
    by (simp_all add: rmse_boosting_pre_def)
  have first: "m_aGradHessBoosting (?xs ! 0) \<noteq> []"
    using xs ne by (cases ?xs) simp_all
  have at: "at_entry ?xs 0 0" using xs first by (simp add: at_entry_def)
  have e0: "entry_index ?xs 0 0 = 0" by (simp add: entry_index_def gradients_boosting_def)
  have d: "(direction = 1 \<and> \<not> direction < 0) \<or> (direction = - 1 \<and> direction < 0)"
    using dir by auto
  have cap': "length (gradients_boosting ?xs) - entry_index ?xs 0 0 \<le>
      length (replicated_gradients (direction < 0)
        (\<lambda>i j n. rmse_gradient SafeConvertFloat aTargets aInitScores i j) (drop 0 aBag) 0 0 0)"
    using cap by (simp add: rmse_gradients_boosting_def)
  have sc': "case aInitScores of None \<Rightarrow> True
             | Some scores \<Rightarrow> (0 :: nat) = 0 \<and> 0 + length (filter (\<lambda>r. r \<noteq> 0) (drop 0 aBag)) \<le> length scores"
    using sc by (simp split: option.splits)
  from InitializeRmseBoosting_loop_writes [OF at ne d cap' tg sc', of dbg]
  obtain xs' where l: "InitializeRmseBoosting_loop dbg SafeConvertFloat direction (direction < 0) aTargets
      (Some aBag) aInitScores 0 0 0 0 0 ?xs = Inr xs'"
    "counts_boosting xs' = counts_boosting ?xs"
    "gradients_boosting xs' = take (length (gradients_boosting ?xs))
       (rmse_gradients_boosting SafeConvertFloat aTargets direction aBag aInitScores)"
    by (auto simp: e0 rmse_gradients_boosting_def)
  have "InitializeRmseGradientsAndHessiansBoosting dbg SafeConvertFloat aTargets cRuntimeClasses
      direction (Some aBag) aInitScores pDataSet = Inr (pDataSet\<lparr>m_aSubsetsBoosting := xs'\<rparr>)"
    using reg n dir xs first l(1)
    by (auto simp: InitializeRmseGradientsAndHessiansBoosting_def Let_def Suc_le_eq)
  with l(2,3) show ?thesis by simp
qed

text \<open>
  The bag \<open>[+1, -2, 0, +3, -1]\<close> over the targets \<open>10, ..., 50\<close>. The training pass,
  with initial scores \<open>1, 2, 3, 4\<close> for the four samples that are not excluded, takes
  the targets 0 and 3 and writes \<open>1 - 10\<close> once and \<open>3 - 40\<close> three times, across the
  two subsets. The validation pass, without initial scores, takes the targets 1 and 4
  and writes \<open>0 - 20\<close> twice and \<open>0 - 50\<close> once.
\<close>

theorem InitializeRmseGradientsAndHessiansBoosting_gradients_witness:
  "rmse_boosting_pre (\<lambda>x. x) S8_targets k_regression 1 S8_bag (Some [1, 2, 3, 4]) S8_training
   \<and> (\<exists>pDataSet'.
        InitializeRmseGradientsAndHessiansBoosting True (\<lambda>x. x) S8_targets k_regression 1 (Some S8_bag)
          (Some [1, 2, 3, 4]) S8_training = Inr pDataSet' \<and>
        counts_boosting (m_aSubsetsBoosting pDataSet') = [2, 2] \<and>
        gradients_boosting (m_aSubsetsBoosting pDataSet') = [- 9, - 37, - 37, - 37])
   \<and> rmse_boosting_pre (\<lambda>x. x) S8_targets k_regression (- 1) S8_bag None S8_validation
   \<and> (\<exists>pDataSet'.
        InitializeRmseGradientsAndHessiansBoosting True (\<lambda>x. x) S8_targets k_regression (- 1) (Some S8_bag)
          None S8_validation = Inr pDataSet' \<and>
        counts_boosting (m_aSubsetsBoosting pDataSet') = [3] \<and>
        gradients_boosting (m_aSubsetsBoosting pDataSet') = [- 20, - 20, - 50])"
proof -
  have ct: "counts_boosting (m_aSubsetsBoosting S8_training) = [2, 2]"
    and lt: "length (gradients_boosting (m_aSubsetsBoosting S8_training)) = 4"
    and cv: "counts_boosting (m_aSubsetsBoosting S8_validation) = [3]"
    and lv: "length (gradients_boosting (m_aSubsetsBoosting S8_validation)) = 3"
    by (simp_all add: S8_training_def S8_validation_def counts_boosting_def gradients_boosting_def)
  have t: "\<exists>pDataSet'.
        InitializeRmseGradientsAndHessiansBoosting True (\<lambda>x. x) S8_targets k_regression 1 (Some S8_bag)
          (Some [1, 2, 3, 4]) S8_training = Inr pDataSet' \<and>
        counts_boosting (m_aSubsetsBoosting pDataSet') = [2, 2] \<and>
        gradients_boosting (m_aSubsetsBoosting pDataSet') = [- 9, - 37, - 37, - 37]"
    using InitializeRmseGradientsAndHessiansBoosting_gradients [OF S8_training_pre, of True]
    unfolding ct lt S8_training_gradients by auto
  have v: "\<exists>pDataSet'.
        InitializeRmseGradientsAndHessiansBoosting True (\<lambda>x. x) S8_targets k_regression (- 1) (Some S8_bag)
          None S8_validation = Inr pDataSet' \<and>
        counts_boosting (m_aSubsetsBoosting pDataSet') = [3] \<and>
        gradients_boosting (m_aSubsetsBoosting pDataSet') = [- 20, - 20, - 50]"
    using InitializeRmseGradientsAndHessiansBoosting_gradients [OF S8_validation_pre, of True]
    unfolding cv lv S8_validation_gradients by auto
  show ?thesis using t v S8_training_pre S8_validation_pre by blast
qed

text \<open>
  C3, as stated, fails: the interaction initializer does not take the negative
  replication counts. Its loop \<open>do ... while(replication < BagEbm { 0 })\<close> goes on past
  them, as the training pass of the boosting initializer does. With the bag
  \<open>[-1, +1]\<close> over the targets 10 and 20, no initial scores, no weights and room for one
  gradient, it writes \<open>0 - 20\<close>, the gradient of the second sample; were every nonzero
  entry in scope (\<open>all_nonzero_gradients\<close>), the first gradient would be \<open>0 - 10\<close>.
\<close>

theorem InitializeRmseGradientsAndHessiansInteraction_all_nonzero_counterexample:
  "InitializeRmseGradientsAndHessiansInteraction True (\<lambda>x. x) [10, 20] k_regression (Some [- 1, 1]) None
     S9_negative =
     Inr (S9_negative\<lparr>m_aSubsetsInteraction :=
            [\<lparr>m_aGradHessInteraction = [- 20], m_aWeightsInteraction = None\<rparr>]\<rparr>)
   \<and> take 1 (all_nonzero_gradients (rmse_gradient (\<lambda>x. x) [10, 20] None) [- 1, 1] 0 0) = [- 10 :: int]
   \<and> gradients_interaction [\<lparr>m_aGradHessInteraction = [- 20 :: int], m_aWeightsInteraction = None\<rparr>] \<noteq>
       take 1 (all_nonzero_gradients (rmse_gradient (\<lambda>x. x) [10, 20] None) [- 1, 1] 0 0)"
  using S9_negative_run [of True]
  by (simp add: rmse_gradient_def gradients_interaction_def)

text \<open>
  C3, amended. For a bag, under the preconditions of the interaction initializer
  (\<open>rmse_interaction_pre\<close>), in a debug or a release build: the initializer returns, the
  subsets keep their sizes and their weights, and the gradient buffers, read one subset
  after the other, hold the gradients \<open>rmse_gradients_interaction\<close> in order: for each
  sample with a positive replication count \<open>r\<close>, in the order of the bag, \<open>r\<close> times one
  value, which is \<open>initScore - target\<close>, multiplied once by the weight of the first entry
  the sample is written to when the subset has weights. Zero and negative counts are
  skipped. On the same bag, targets and initial scores the training pass of the
  boosting initializer writes the gradients \<open>initScore - target\<close> with no weight.

  The precondition on the subsets (a subset with weights starts with the first replica
  of a sample) is needed for the weight to be that of the entry: see
  \<open>S9_straddling_run\<close>.
\<close>

theorem InitializeRmseGradientsAndHessiansInteraction_gradients:
  fixes pDataSet :: "('f :: {zero, minus, times}) DataSetInteractionSubsets"
  assumes "rmse_interaction_pre SafeConvertFloat aTargets cRuntimeClasses aBag aInitScores pDataSet"
  shows "(\<exists>pDataSet'.
           InitializeRmseGradientsAndHessiansInteraction dbg SafeConvertFloat aTargets cRuntimeClasses
             (Some aBag) aInitScores pDataSet = Inr pDataSet' \<and>
           m_cSamplesInteraction pDataSet' = m_cSamplesInteraction pDataSet \<and>
           counts_interaction (m_aSubsetsInteraction pDataSet') =
             counts_interaction (m_aSubsetsInteraction pDataSet) \<and>
           map m_aWeightsInteraction (m_aSubsetsInteraction pDataSet') =
             map m_aWeightsInteraction (m_aSubsetsInteraction pDataSet) \<and>
           gradients_interaction (m_aSubsetsInteraction pDataSet') =
             take (length (gradients_interaction (m_aSubsetsInteraction pDataSet)))
               (rmse_gradients_interaction SafeConvertFloat aTargets aBag aInitScores
                  (m_aSubsetsInteraction pDataSet))) \<and>
         (\<exists>pDataSet'.
           InitializeRmseGradientsAndHessiansBoosting dbg SafeConvertFloat aTargets cRuntimeClasses 1
             (Some aBag) aInitScores
             \<lparr>m_cSamplesBoosting = m_cSamplesInteraction pDataSet,
              m_aSubsetsBoosting = map boosting_of (m_aSubsetsInteraction pDataSet)\<rparr> = Inr pDataSet' \<and>
           gradients_boosting (m_aSubsetsBoosting pDataSet') =
             take (length (gradients_interaction (m_aSubsetsInteraction pDataSet)))
               (rmse_gradients_boosting SafeConvertFloat aTargets 1 aBag aInitScores))"
proof -
  let ?xs = "m_aSubsetsInteraction pDataSet"
  from assms have reg: "IsRegression cRuntimeClasses" and n: "1 \<le> m_cSamplesInteraction pDataSet"
    and xs: "?xs \<noteq> []"
    and ne: "list_all (\<lambda>s. m_aGradHessInteraction s \<noteq> []) ?xs"
    and cap: "length (gradients_interaction ?xs) \<le>
        length (rmse_gradients_interaction SafeConvertFloat aTargets aBag aInitScores ?xs)"
    and tg: "length aBag \<le> length aTargets"
    and sc: "case aInitScores of None \<Rightarrow> True
             | Some scores \<Rightarrow> length (filter (\<lambda>r. r \<noteq> 0) aBag) \<le> length scores"
    and wl: "list_all (\<lambda>s. case m_aWeightsInteraction s of
                       None \<Rightarrow> True
                     | Some ws \<Rightarrow> length ws = length (m_aGradHessInteraction s)) ?xs"
    and al: "list_all (\<lambda>pSubset. m_aWeightsInteraction (?xs ! pSubset) \<noteq> None \<longrightarrow>
                  run_start aBag (subset_start ?xs pSubset) = subset_start ?xs pSubset) [0 ..< length ?xs]"
    by (simp_all add: rmse_interaction_pre_def)
  have first: "m_aGradHessInteraction (?xs ! 0) \<noteq> []"
    using xs ne by (cases ?xs) simp_all
  from InitializeRmseInteraction_writes [OF xs ne cap tg sc wl al, of dbg]
  obtain xs' where l:
    "InitializeRmseInteraction_loop dbg SafeConvertFloat aTargets (Some aBag) aInitScores 0 0 0 0 0
       (GetWeights (?xs ! 0)) ?xs = Inr xs'"
    "counts_interaction xs' = counts_interaction ?xs"
    "map m_aWeightsInteraction xs' = map m_aWeightsInteraction ?xs"
    "gradients_interaction xs' = take (length (gradients_interaction ?xs))
       (rmse_gradients_interaction SafeConvertFloat aTargets aBag aInitScores ?xs)"
    by blast
  have "InitializeRmseGradientsAndHessiansInteraction dbg SafeConvertFloat aTargets cRuntimeClasses
      (Some aBag) aInitScores pDataSet = Inr (pDataSet\<lparr>m_aSubsetsInteraction := xs'\<rparr>)"
    using reg n xs first l(1)
    by (auto simp: InitializeRmseGradientsAndHessiansInteraction_def Let_def Suc_le_eq)
  with l(2,3,4) have A: "\<exists>pDataSet'.
           InitializeRmseGradientsAndHessiansInteraction dbg SafeConvertFloat aTargets cRuntimeClasses
             (Some aBag) aInitScores pDataSet = Inr pDataSet' \<and>
           m_cSamplesInteraction pDataSet' = m_cSamplesInteraction pDataSet \<and>
           counts_interaction (m_aSubsetsInteraction pDataSet') = counts_interaction ?xs \<and>
           map m_aWeightsInteraction (m_aSubsetsInteraction pDataSet') = map m_aWeightsInteraction ?xs \<and>
           gradients_interaction (m_aSubsetsInteraction pDataSet') =
             take (length (gradients_interaction ?xs))
               (rmse_gradients_interaction SafeConvertFloat aTargets aBag aInitScores ?xs)"
    by simp
  let ?ys = "map boosting_of ?xs"
  have ys: "?ys \<noteq> []" using xs by simp
  have ney: "list_all (\<lambda>s. m_aGradHessBoosting s \<noteq> []) ?ys"
    using ne by (simp add: list_all_iff)
  have f: "((1 :: int) < 0) = False" by simp
  have "length (rmse_gradients_boosting SafeConvertFloat aTargets 1 aBag aInitScores) =
      length (rmse_gradients_interaction SafeConvertFloat aTargets aBag aInitScores ?xs)"
    unfolding rmse_gradients_boosting_def rmse_gradients_interaction_def f
    by (rule replicated_gradients_length)
  with cap have capy: "length (gradients_boosting ?ys) \<le>
      length (rmse_gradients_boosting SafeConvertFloat aTargets 1 aBag aInitScores)"
    by (simp add: gradients_interaction_boosting)
  from InitializeRmseBoosting_training_writes [OF ys ney capy tg sc, of dbg]
  obtain ys' where b:
    "InitializeRmseBoosting_loop dbg SafeConvertFloat 1 False aTargets (Some aBag) aInitScores 0 0 0 0 0 ?ys =
       Inr ys'"
    "gradients_boosting ys' = take (length (gradients_boosting ?ys))
       (rmse_gradients_boosting SafeConvertFloat aTargets 1 aBag aInitScores)"
    by blast
  have firsty: "m_aGradHessBoosting (?ys ! 0) \<noteq> []"
    using xs first by (simp add: nth_map [of 0 ?xs])
  have "InitializeRmseGradientsAndHessiansBoosting dbg SafeConvertFloat aTargets cRuntimeClasses 1
      (Some aBag) aInitScores
      \<lparr>m_cSamplesBoosting = m_cSamplesInteraction pDataSet, m_aSubsetsBoosting = ?ys\<rparr> =
      Inr \<lparr>m_cSamplesBoosting = m_cSamplesInteraction pDataSet, m_aSubsetsBoosting = ys'\<rparr>"
    using reg n ys firsty b(1)
    by (auto simp: InitializeRmseGradientsAndHessiansBoosting_def Let_def Suc_le_eq)
  with b(2) have B: "\<exists>pDataSet'.
           InitializeRmseGradientsAndHessiansBoosting dbg SafeConvertFloat aTargets cRuntimeClasses 1
             (Some aBag) aInitScores
             \<lparr>m_cSamplesBoosting = m_cSamplesInteraction pDataSet, m_aSubsetsBoosting = ?ys\<rparr> = Inr pDataSet' \<and>
           gradients_boosting (m_aSubsetsBoosting pDataSet') =
             take (length (gradients_interaction ?xs))
               (rmse_gradients_boosting SafeConvertFloat aTargets 1 aBag aInitScores)"
    by (simp add: gradients_interaction_boosting)
  from A B show ?thesis by blast
qed

text \<open>
  Scenario S9 with weights: the samples 0 and 3 are written, \<open>(1 - 10) * 2\<close> twice and
  \<open>(3 - 40) * 5\<close> twice, where the boosting initializer writes \<open>1 - 10\<close> and \<open>3 - 40\<close>.
  Without weights, on the bag \<open>[+1, -2, 0, +3, -1]\<close>: \<open>1 - 10\<close> once and \<open>3 - 40\<close> three
  times, across the two subsets.
\<close>

theorem InitializeRmseGradientsAndHessiansInteraction_gradients_witness:
  "rmse_interaction_pre (\<lambda>x. x) S9_targets k_regression S9_bag (Some [1, 2, 3]) S9_weighted
   \<and> (\<exists>pDataSet'.
        InitializeRmseGradientsAndHessiansInteraction True (\<lambda>x. x) S9_targets k_regression (Some S9_bag)
          (Some [1, 2, 3]) S9_weighted = Inr pDataSet' \<and>
        counts_interaction (m_aSubsetsInteraction pDataSet') = [2, 2] \<and>
        gradients_interaction (m_aSubsetsInteraction pDataSet') = [- 18, - 18, - 185, - 185])
   \<and> (\<exists>pDataSet'.
        InitializeRmseGradientsAndHessiansBoosting True (\<lambda>x. x) S9_targets k_regression 1 (Some S9_bag)
          (Some [1, 2, 3])
          \<lparr>m_cSamplesBoosting = 4,
           m_aSubsetsBoosting = [\<lparr>m_aGradHessBoosting = [0, 0]\<rparr>, \<lparr>m_aGradHessBoosting = [0, 0]\<rparr>]\<rparr> =
          Inr pDataSet' \<and>
        gradients_boosting (m_aSubsetsBoosting pDataSet') = [- 9, - 9, - 37, - 37])
   \<and> rmse_interaction_pre (\<lambda>x. x) S8_targets k_regression S8_bag (Some [1, 2, 3, 4]) S9_unweighted
   \<and> (\<exists>pDataSet'.
        InitializeRmseGradientsAndHessiansInteraction True (\<lambda>x. x) S8_targets k_regression (Some S8_bag)
          (Some [1, 2, 3, 4]) S9_unweighted = Inr pDataSet' \<and>
        gradients_interaction (m_aSubsetsInteraction pDataSet') = [- 9, - 37, - 37, - 37])"
proof -
  have cw: "counts_interaction (m_aSubsetsInteraction S9_weighted) = [2, 2]"
    and lw: "length (gradients_interaction (m_aSubsetsInteraction S9_weighted)) = 4"
    and mw: "m_cSamplesInteraction S9_weighted = 4"
    and bw: "map boosting_of (m_aSubsetsInteraction S9_weighted) =
        [\<lparr>m_aGradHessBoosting = [0, 0]\<rparr>, \<lparr>m_aGradHessBoosting = [0, 0]\<rparr>]"
    and lu: "length (gradients_interaction (m_aSubsetsInteraction S9_unweighted)) = 4"
    by (simp_all add: S9_weighted_def S9_unweighted_def counts_interaction_def gradients_interaction_def
        boosting_of_def)
  note w = InitializeRmseGradientsAndHessiansInteraction_gradients [OF S9_weighted_pre, of True,
      unfolded cw lw mw bw S9_weighted_stream S9_weighted_boosting_stream]
  note u = InitializeRmseGradientsAndHessiansInteraction_gradients [OF S9_unweighted_pre, of True,
      unfolded lu S9_unweighted_stream]
  have w1: "\<exists>pDataSet'.
        InitializeRmseGradientsAndHessiansInteraction True (\<lambda>x. x) S9_targets k_regression (Some S9_bag)
          (Some [1, 2, 3]) S9_weighted = Inr pDataSet' \<and>
        counts_interaction (m_aSubsetsInteraction pDataSet') = [2, 2] \<and>
        gradients_interaction (m_aSubsetsInteraction pDataSet') = [- 18, - 18, - 185, - 185]"
    using w by auto
  have w2: "\<exists>pDataSet'.
        InitializeRmseGradientsAndHessiansBoosting True (\<lambda>x. x) S9_targets k_regression 1 (Some S9_bag)
          (Some [1, 2, 3])
          \<lparr>m_cSamplesBoosting = 4,
           m_aSubsetsBoosting = [\<lparr>m_aGradHessBoosting = [0, 0]\<rparr>, \<lparr>m_aGradHessBoosting = [0, 0]\<rparr>]\<rparr> =
          Inr pDataSet' \<and>
        gradients_boosting (m_aSubsetsBoosting pDataSet') = [- 9, - 9, - 37, - 37]"
    using w by auto
  have u1: "\<exists>pDataSet'.
        InitializeRmseGradientsAndHessiansInteraction True (\<lambda>x. x) S8_targets k_regression (Some S8_bag)
          (Some [1, 2, 3, 4]) S9_unweighted = Inr pDataSet' \<and>
        gradients_interaction (m_aSubsetsInteraction pDataSet') = [- 9, - 37, - 37, - 37]"
    using u by auto
  show ?thesis using w1 w2 u1 S9_weighted_pre S9_unweighted_pre by blast
qed

end
